theory Spec2Isabelle
  imports Main "HOL-Library.Monad_Syntax"
begin

section \<open>Serialized tree addressing: \<open>tree_address_t\<close> (pc2.cuh)\<close>

text \<open>
  Values of type \<open>size_t\<close> are natural numbers below \<open>2 ^ 64\<close>, and arithmetic on them
  is arithmetic modulo \<open>2 ^ 64\<close>. \<open>size_t x\<close> is the value a \<open>size_t\<close> variable holds
  after it is assigned the sum or product \<open>x\<close>: reduction modulo \<open>2 ^ 64\<close> commutes with
  sums and products, so an expression made of sums and products is reduced once.
  \<open>size_t_sub a b\<close> is \<open>a - b\<close> on \<open>size_t\<close>: the difference wraps around when \<open>b\<close> is
  the larger one.

  A constructor that does not hand back an object (a failed \<open>assert\<close>, a division by
  zero, a loop that never ends) is the value \<open>None\<close>.
\<close>

definition size_t :: "nat \<Rightarrow> nat" where
  "size_t x = x mod 2 ^ 64"

definition size_t_sub :: "nat \<Rightarrow> nat \<Rightarrow> nat" where
  "size_t_sub a b = (if b \<le> a then a - b else (a + 2 ^ 64 - b) mod 2 ^ 64)"

record node_id_t =
  layer :: nat
  node :: nat

record tree_address =
  leaf_count :: nat
  arity :: nat
  node_size :: nat
  layer_offsets :: "nat list"

text \<open>The \<open>for\<close> loop of the constructor: \<open>node_count /= arity\<close>, \<open>layer_skips\<close> times.\<close>

primrec skip_layers :: "nat \<Rightarrow> nat \<Rightarrow> nat \<Rightarrow> nat" where
  "skip_layers ar 0 node_count = node_count"
| "skip_layers ar (Suc i) node_count = skip_layers ar i (node_count div ar)"

text \<open>
  The \<open>while (node_count > 1)\<close> loop of the constructor together with the final
  \<open>push_back\<close>. With \<open>arity = 1\<close> and more than one node the loop of the source never
  ends; here that is \<open>None\<close>.
\<close>

partial_function (option) layer_loop ::
  "nat \<Rightarrow> nat \<Rightarrow> nat list \<Rightarrow> nat \<Rightarrow> nat \<Rightarrow> nat list option" where
  "layer_loop ar ns offs offset node_count =
     (if node_count > 1
      then layer_loop ar ns (offs @ [offset]) (size_t (offset + node_count * ns))
             (node_count div ar)
      else Some (offs @ [offset]))"

declare layer_loop.simps [code]

definition tree_address_t :: "nat \<Rightarrow> nat \<Rightarrow> nat \<Rightarrow> nat \<Rightarrow> tree_address option" where
  "tree_address_t leaf_count0 arity0 node_size0 layer_skips =
     (if arity0 = 0 then None
      else if leaf_count0 mod arity0 \<noteq> 0 then None
      else do {
        offs \<leftarrow> layer_loop arity0 node_size0 [] 0 (skip_layers arity0 layer_skips leaf_count0);
        Some \<lparr>leaf_count = leaf_count0, arity = arity0, node_size = node_size0,
              layer_offsets = offs\<rparr>
      })"

text \<open>
  \<open>address\<close>: \<open>layer_offsets[node.layer()]\<close> outside the vector is undefined behaviour in
  the source and \<open>None\<close> here.
\<close>

definition address :: "tree_address \<Rightarrow> node_id_t \<Rightarrow> nat option" where
  "address t nid =
     (if layer nid < length (layer_offsets t)
      then Some (size_t (layer_offsets t ! layer nid + node nid * node_size t))
      else None)"

text \<open>\<open>data_size\<close>: \<open>layer_offsets.back() + node_size\<close>; the constructor always pushes
  at least one offset.\<close>

definition data_size :: "tree_address \<Rightarrow> nat" where
  "data_size t = size_t (last (layer_offsets t) + node_size t)"

text \<open>
  The class does not store how many nodes a layer has. \<open>nodes_at\<close> is the value of the
  constructor's variable \<open>node_count\<close> at the moment the offset of stored layer \<open>i\<close> is
  pushed: the leaf count after \<open>layer_skips\<close> divisions and \<open>i\<close> more.
\<close>

definition nodes_at :: "nat \<Rightarrow> nat \<Rightarrow> nat \<Rightarrow> nat \<Rightarrow> nat" where
  "nodes_at leaf_count0 arity0 layer_skips i =
     skip_layers arity0 i (skip_layers arity0 layer_skips leaf_count0)"

text \<open>A node id is inside the serialized tree when its layer is stored and its index is
  below the node count of that layer.\<close>

definition inside_tree :: "nat \<Rightarrow> nat \<Rightarrow> tree_address \<Rightarrow> node_id_t \<Rightarrow> bool" where
  "inside_tree leaf_count0 layer_skips t nid \<longleftrightarrow>
     layer nid < length (layer_offsets t) \<and>
     node nid < nodes_at leaf_count0 (arity t) layer_skips (layer nid)"

text \<open>Lexicographic order on \<open>(layer, node)\<close>.\<close>

definition node_id_less :: "node_id_t \<Rightarrow> node_id_t \<Rightarrow> bool" where
  "node_id_less a b \<longleftrightarrow> layer a < layer b \<or> (layer a = layer b \<and> node a < node b)"


section \<open>The engine object: \<open>pc2_t\<close> (pc2.cu)\<close>

text \<open>
  The compile-time constants the engine is instantiated with are declared in headers that
  are not among the sources at hand (\<open>pc2_internal.hpp\<close>, the sealing configuration
  classes). They are parameters of the model: the number of parallel sectors
  \<open>C::PARALLEL_SECTORS\<close>, the tree arity, the node size in bytes, \<open>sizeof(fr_t)\<close>, the
  length \<open>BATCH_SIZE = disk_io_batch_size\<close> of a batch of buffers, and the two pool sizes.
\<close>

record sealing_config =
  PARALLEL_SECTORS :: nat
  TREE_ARITY :: nat
  NODE_SIZE :: nat
  sizeof_fr_t :: nat
  disk_io_batch_size :: nat
  num_host_batches :: nat
  num_host_empty_batches :: nat

text \<open>The getters of \<open>SectorParameters\<close> that the engine calls.\<close>

record SectorParameters =
  GetNumNodes :: nat
  GetNumTreeRCFiles :: nat
  GetNumTreeRCArity :: nat
  GetNumTreeRDiscardRows :: nat
  GetNumLayers :: nat

text \<open>
  The two \<open>while (layer_offset >= TREE_ARITY)\<close> loops of the constructor, which fill
  \<open>layer_offsets_c\<close> and \<open>layer_offsets_r\<close>. With an arity below 2 the loop of the source
  does not end (or divides by zero); here that is \<open>None\<close>.
\<close>

partial_function (option) offset_table_loop :: "nat \<Rightarrow> nat list \<Rightarrow> nat \<Rightarrow> nat list option" where
  "offset_table_loop A tbl layer_offset =
     (if layer_offset \<ge> A
      then offset_table_loop A (tbl @ [layer_offset]) (layer_offset div A)
      else Some tbl)"

declare offset_table_loop.simps [code]

text \<open>
  A file the engine writes to: the tree-C and tree-R file of a sector and partition, the
  sealed file of a sector, the \<open>p_aux\<close> file of a sector.
\<close>

datatype file_id = Tree_c nat nat | Tree_r nat nat | Sealed nat | P_aux nat

text \<open>
  \<open>buf_to_disk_t\<close> with the fields pc2.cu reads and writes. Pointers into
  \<open>host_buf_storage\<close> are indices of that array, \<open>nullptr\<close> is \<open>None\<close>, a writer handle is
  the file it writes to.
\<close>

record buf_to_disk_t =
  data :: nat
  src :: "nat option list"
  dst :: "file_id option list"
  offset :: nat
  size_b :: nat
  stride :: nat
  reverse :: bool

text \<open>
  \<open>buf_to_disk_batch_t\<close>: the array \<open>batch[BATCH_SIZE]\<close> of buffer pointers. A buffer
  pointer is an index into \<open>host_bufs\<close>, a batch pointer an index into \<open>host_batches\<close>.
\<close>

type_synonym buf_to_disk_batch_t = "nat option list"

text \<open>
  Modelled from the spec: \<open>mtx_fifo_t\<close>, the thread-safe queue of batch pointers, is not
  among the sources. The spec calls the three pools bounded FIFO queues; pc2.cu tests the
  result of \<open>dequeue()\<close> against \<open>nullptr\<close>, so an empty queue answers \<open>nullptr\<close>. Each
  queue is created with room for every batch of the engine, so \<open>enqueue\<close> is modelled
  without a capacity.
\<close>

type_synonym mtx_fifo_t = "nat option list"

definition fifo_enqueue :: "mtx_fifo_t \<Rightarrow> nat option \<Rightarrow> mtx_fifo_t" where
  "fifo_enqueue q p = q @ [p]"

definition fifo_dequeue :: "mtx_fifo_t \<Rightarrow> nat option \<times> mtx_fifo_t" where
  "fifo_dequeue q = (case q of [] \<Rightarrow> (None, []) | p # ps \<Rightarrow> (p, ps))"

record pc2 =
  params :: SectorParameters
  tree_r_only :: bool
  nodes_to_read :: nat
  batch_size :: nat
  tree_c_address :: tree_address
  tree_r_address :: tree_address
  stream_count :: nat
  final_gpu_offset_c :: nat
  final_gpu_offset_r :: nat
  layer_offsets_c :: "nat list"
  layer_offsets_r :: "nat list"
  host_bufs :: "buf_to_disk_t list"
  host_batches :: "buf_to_disk_batch_t list"
  host_buf_pool_full :: mtx_fifo_t
  host_buf_pool_empty :: mtx_fifo_t
  host_buf_to_disk :: mtx_fifo_t

text \<open>
  The buffers and batches the constructor sets up: batch \<open>i < num_host_batches\<close> holds
  the buffers \<open>i * disk_io_batch_size + j\<close> and goes to \<open>host_buf_pool_full\<close>; the
  following \<open>num_host_empty_batches\<close> batches hold null pointers and go to
  \<open>host_buf_pool_empty\<close>. A buffer created by \<open>resize\<close> is zero except for \<open>data\<close>.
\<close>

definition initial_host_bufs :: "sealing_config \<Rightarrow> nat \<Rightarrow> buf_to_disk_t list" where
  "initial_host_bufs C batch_size0 =
     map (\<lambda>k. \<lparr>data = k * batch_size0 * PARALLEL_SECTORS C,
               src = replicate (PARALLEL_SECTORS C) None,
               dst = replicate (PARALLEL_SECTORS C) None,
               offset = 0, size_b = 0, stride = 0, reverse = False\<rparr>)
         [0 ..< num_host_batches C * disk_io_batch_size C]"

definition initial_host_batches :: "sealing_config \<Rightarrow> buf_to_disk_batch_t list" where
  "initial_host_batches C =
     map (\<lambda>i. map (\<lambda>j. Some (i * disk_io_batch_size C + j)) [0 ..< disk_io_batch_size C])
         [0 ..< num_host_batches C]
     @ replicate (num_host_empty_batches C) (replicate (disk_io_batch_size C) None)"

text \<open>
  The constructor, in the order of the source: the two tree addresses of the member
  initialisers, the two assertions, the final GPU offsets, the two offset tables, the
  buffer pools. Opening the files, the GPU resources and the registration of the page
  buffer are left out.
\<close>

definition pc2_t ::
  "sealing_config \<Rightarrow> SectorParameters \<Rightarrow> bool \<Rightarrow> nat \<Rightarrow> nat \<Rightarrow> nat \<Rightarrow> pc2 option" where
  "pc2_t C params0 tree_r_only0 nodes_to_read0 batch_size0 stream_count0 =
     (if GetNumTreeRCFiles params0 = 0 then None
      else do {
        tree_c \<leftarrow> tree_address_t (GetNumNodes params0 div GetNumTreeRCFiles params0)
                    (TREE_ARITY C) (NODE_SIZE C) 0;
        tree_r \<leftarrow> tree_address_t (GetNumNodes params0 div GetNumTreeRCFiles params0)
                    (TREE_ARITY C) (NODE_SIZE C) (GetNumTreeRDiscardRows params0 + 1);
        if TREE_ARITY C \<noteq> GetNumTreeRCArity params0 then None
        else if stream_count0 = 0 then None
        else if nodes_to_read0 mod stream_count0 \<noteq> 0 then None
        else do {
          final_tree \<leftarrow> tree_address_t
                          (size_t (batch_size0 * stream_count0) div TREE_ARITY C
                             div TREE_ARITY C)
                          (TREE_ARITY C) (sizeof_fr_t C) 0;
          offsets_c \<leftarrow> offset_table_loop (TREE_ARITY C) [] (nodes_to_read0 div stream_count0);
          offsets_r \<leftarrow> offset_table_loop (TREE_ARITY C) []
                         (skip_layers (TREE_ARITY C) (GetNumTreeRDiscardRows params0 + 1)
                            (nodes_to_read0 div stream_count0));
          Some \<lparr>params = params0, tree_r_only = tree_r_only0,
                nodes_to_read = nodes_to_read0, batch_size = batch_size0,
                tree_c_address = tree_c, tree_r_address = tree_r,
                stream_count = stream_count0,
                final_gpu_offset_c = size_t_sub (data_size tree_c) (data_size final_tree),
                final_gpu_offset_r = size_t_sub (data_size tree_r) (data_size final_tree),
                layer_offsets_c = offsets_c, layer_offsets_r = offsets_r,
                host_bufs = initial_host_bufs C batch_size0,
                host_batches = initial_host_batches C,
                host_buf_pool_full = map Some [0 ..< num_host_batches C],
                host_buf_pool_empty =
                  map (\<lambda>i. Some (i + num_host_batches C)) [0 ..< num_host_empty_batches C],
                host_buf_to_disk = []\<rparr>
        }
      })"

section \<open>The buffer batcher: \<open>pc2_batcher_t\<close> (pc2.cu)\<close>

text \<open>
  What stops the program: a failed \<open>assert\<close>, the use of a null pointer, an array index
  outside its array, a division by zero.
\<close>

datatype fault = Assert_failed | Null_deref | Out_of_bounds | Division_by_zero

text \<open>
  The batcher with the three queues it refers to and the memory its pointers point into
  (\<open>host_batches\<close> and \<open>host_bufs\<close> of the engine). The mutex is left out: every operation
  runs under it from start to end. The members \<open>unbundle\<close> and \<open>bundle\<close> of the source are
  \<open>unbundle_batch\<close> and \<open>bundle_batch\<close> here.
\<close>

record pc2_batcher =
  unbundle_batch :: "nat option"
  bundle_batch :: "nat option"
  to_disk :: mtx_fifo_t
  pool_full :: mtx_fifo_t
  pool_empty :: mtx_fifo_t
  idx_unbundle :: nat
  idx_bundle :: nat
  batches :: "buf_to_disk_batch_t list"
  bufs :: "buf_to_disk_t list"

text \<open>The constructor, as \<open>hash_gpu\<close> calls it on the queues of the engine.\<close>

definition pc2_batcher_t :: "pc2 \<Rightarrow> fault + pc2_batcher" where
  "pc2_batcher_t e =
     (let (u, full) = fifo_dequeue (host_buf_pool_full e);
          (b, empty) = fifo_dequeue (host_buf_pool_empty e)
      in if u = None then Inl Assert_failed
         else if b = None then Inl Assert_failed
         else Inr \<lparr>unbundle_batch = u, bundle_batch = b, to_disk = host_buf_to_disk e,
                   pool_full = full, pool_empty = empty,
                   idx_unbundle = 0, idx_bundle = 0,
                   batches = host_batches e, bufs = host_bufs e\<rparr>)"

text \<open>\<open>p->batch[i]\<close> for a batch pointer \<open>p\<close>: the array has \<open>BATCH_SIZE\<close> entries.\<close>

definition batch_at :: "nat \<Rightarrow> pc2_batcher \<Rightarrow> nat \<Rightarrow> nat \<Rightarrow> fault + nat option" where
  "batch_at BATCH_SIZE st p i =
     (if i < BATCH_SIZE \<and> p < length (batches st) \<and> i < length (batches st ! p)
      then Inr (batches st ! p ! i)
      else Inl Out_of_bounds)"

text \<open>
  One round of the \<open>while\<close> loop of \<open>flush\<close>:
  \<^verbatim>\<open>unbundle->batch[idx_unbundle]->size = 0;\<close>
  \<^verbatim>\<open>bundle->batch[idx_bundle] = unbundle->batch[idx_unbundle++];\<close>
  \<^verbatim>\<open>idx_bundle++;\<close>
  \<^verbatim>\<open>idx_unbundle++;\<close>
  The index \<open>idx_unbundle\<close> is incremented twice.
\<close>

definition flush_step :: "nat \<Rightarrow> pc2_batcher \<Rightarrow> fault + pc2_batcher" where
  "flush_step BATCH_SIZE st =
     (case unbundle_batch st of
        None \<Rightarrow> Inl Null_deref
      | Some u \<Rightarrow>
         (case batch_at BATCH_SIZE st u (idx_unbundle st) of
            Inl f \<Rightarrow> Inl f
          | Inr None \<Rightarrow> Inl Null_deref
          | Inr (Some p) \<Rightarrow>
             if \<not> p < length (bufs st) then Inl Out_of_bounds
             else
               (case bundle_batch st of
                  None \<Rightarrow> Inl Null_deref
                | Some b \<Rightarrow>
                   if \<not> (idx_bundle st < BATCH_SIZE \<and> b < length (batches st) \<and>
                         idx_bundle st < length (batches st ! b))
                   then Inl Out_of_bounds
                   else Inr (st\<lparr>bufs := (bufs st)[p := (bufs st ! p)\<lparr>size_b := 0\<rparr>],
                                batches := (batches st)
                                  [b := (batches st ! b)[idx_bundle st := Some p]],
                                idx_bundle := idx_bundle st + 1,
                                idx_unbundle := idx_unbundle st + 2\<rparr>))))"

function flush_loop :: "nat \<Rightarrow> pc2_batcher \<Rightarrow> fault + pc2_batcher" where
  "flush_loop BATCH_SIZE st =
     (if idx_bundle st < BATCH_SIZE
      then (case flush_step BATCH_SIZE st of
              Inl f \<Rightarrow> Inl f
            | Inr st' \<Rightarrow> flush_loop BATCH_SIZE st')
      else Inr st)"
  by pat_completeness auto
termination
  by (relation "measure (\<lambda>(BATCH_SIZE, st). BATCH_SIZE - idx_bundle st)")
     (auto simp: flush_step_def split: option.splits sum.splits if_splits)

declare flush_loop.simps [simp del]

definition flush :: "nat \<Rightarrow> pc2_batcher \<Rightarrow> fault + pc2_batcher" where
  "flush BATCH_SIZE st =
     (if idx_bundle st \<noteq> idx_unbundle st then Inl Assert_failed
      else
        (case (if idx_bundle st > 0
               then (case flush_loop BATCH_SIZE st of
                       Inl f \<Rightarrow> Inl f
                     | Inr s \<Rightarrow>
                        Inr (s\<lparr>to_disk := fifo_enqueue (to_disk s) (bundle_batch s),
                               pool_empty := fifo_enqueue (pool_empty s) (unbundle_batch s)\<rparr>))
               else
                 (let s1 = (if bundle_batch st \<noteq> None
                            then st\<lparr>pool_empty :=
                                      fifo_enqueue (pool_empty st) (bundle_batch st)\<rparr>
                            else st);
                      s2 = (if unbundle_batch s1 \<noteq> None
                            then s1\<lparr>pool_full :=
                                       fifo_enqueue (pool_full s1) (bundle_batch s1)\<rparr>
                            else s1)
                  in Inr s2))
         of Inl f \<Rightarrow> Inl f
          | Inr s \<Rightarrow> Inr (s\<lparr>bundle_batch := None, unbundle_batch := None,
                            idx_unbundle := 0, idx_bundle := 0\<rparr>)))"

text \<open>\<open>dequeue\<close> returns the buffer pointer (possibly \<open>nullptr\<close>) and the new state.\<close>

definition dequeue :: "nat \<Rightarrow> pc2_batcher \<Rightarrow> fault + (nat option \<times> pc2_batcher)" where
  "dequeue BATCH_SIZE st =
     (let st1 = (if unbundle_batch st = None
                 then (let (u, full) = fifo_dequeue (pool_full st)
                       in st\<lparr>unbundle_batch := u, pool_full := full\<rparr>)
                 else st)
      in case unbundle_batch st1 of
           None \<Rightarrow> Inr (None, st1)
         | Some u \<Rightarrow>
            (case batch_at BATCH_SIZE st1 u (idx_unbundle st1) of
               Inl f \<Rightarrow> Inl f
             | Inr buf \<Rightarrow>
                (let st2 = st1\<lparr>idx_unbundle := idx_unbundle st1 + 1\<rparr>
                 in if idx_unbundle st2 = BATCH_SIZE
                    then Inr (buf, st2\<lparr>pool_empty := fifo_enqueue (pool_empty st2) (Some u),
                                       unbundle_batch := None, idx_unbundle := 0\<rparr>)
                    else Inr (buf, st2))))"

text \<open>\<open>enqueue\<close> returns \<open>true\<close> whenever it returns; its \<open>assert(false)\<close> is the fault.\<close>

definition enqueue :: "nat \<Rightarrow> pc2_batcher \<Rightarrow> nat option \<Rightarrow> fault + pc2_batcher" where
  "enqueue BATCH_SIZE st buf =
     (let st1 = (if bundle_batch st = None
                 then (let (b, empty) = fifo_dequeue (pool_empty st)
                       in st\<lparr>bundle_batch := b, pool_empty := empty\<rparr>)
                 else st)
      in case bundle_batch st1 of
           None \<Rightarrow> Inl Assert_failed
         | Some b \<Rightarrow>
            if \<not> (idx_bundle st1 < BATCH_SIZE \<and> b < length (batches st1) \<and>
                  idx_bundle st1 < length (batches st1 ! b))
            then Inl Out_of_bounds
            else
              (let st2 = st1\<lparr>batches := (batches st1)
                               [b := (batches st1 ! b)[idx_bundle st1 := buf]],
                             idx_bundle := idx_bundle st1 + 1\<rparr>
               in if idx_bundle st2 = BATCH_SIZE
                  then Inr (st2\<lparr>to_disk := fifo_enqueue (to_disk st2) (Some b),
                                bundle_batch := None, idx_bundle := 0\<rparr>)
                  else Inr st2))"

text \<open>\<open>size()\<close>; the two differences are differences of \<open>size_t\<close> values.\<close>

definition size_batcher :: "nat \<Rightarrow> pc2_batcher \<Rightarrow> nat" where
  "size_batcher BATCH_SIZE st =
     min ((if unbundle_batch st = None then 0 else size_t_sub BATCH_SIZE (idx_unbundle st))
            + length (pool_full st) * BATCH_SIZE)
         ((if bundle_batch st = None then 0 else size_t_sub BATCH_SIZE (idx_bundle st))
            + length (pool_empty st) * BATCH_SIZE)"

text \<open>
  The invariant of the batcher between two operations: a held batch and every batch
  waiting in \<open>pool_full\<close> or \<open>pool_empty\<close> is a batch of the engine with \<open>BATCH_SIZE\<close>
  entries; the index into a held batch is inside it; the entries not yet handed out of
  the \<open>unbundle\<close> batch and all entries of the batches in \<open>pool_full\<close> are buffers.
\<close>

definition is_batch :: "nat \<Rightarrow> pc2_batcher \<Rightarrow> nat option \<Rightarrow> bool" where
  "is_batch BATCH_SIZE st p \<longleftrightarrow>
     (case p of None \<Rightarrow> False
      | Some q \<Rightarrow> q < length (batches st) \<and> length (batches st ! q) = BATCH_SIZE)"

definition holds_bufs :: "pc2_batcher \<Rightarrow> nat option \<Rightarrow> nat \<Rightarrow> bool" where
  "holds_bufs st p i \<longleftrightarrow>
     (case p of None \<Rightarrow> False
      | Some q \<Rightarrow> list_all (\<lambda>x. x \<noteq> None) (drop i (batches st ! q)))"

definition batcher_inv :: "nat \<Rightarrow> pc2_batcher \<Rightarrow> bool" where
  "batcher_inv BATCH_SIZE st \<longleftrightarrow>
     (unbundle_batch st \<noteq> None \<longrightarrow>
        is_batch BATCH_SIZE st (unbundle_batch st) \<and> idx_unbundle st < BATCH_SIZE \<and>
        holds_bufs st (unbundle_batch st) (idx_unbundle st)) \<and>
     (unbundle_batch st = None \<longrightarrow> idx_unbundle st = 0) \<and>
     (bundle_batch st \<noteq> None \<longrightarrow>
        is_batch BATCH_SIZE st (bundle_batch st) \<and> idx_bundle st < BATCH_SIZE) \<and>
     (bundle_batch st = None \<longrightarrow> idx_bundle st = 0) \<and>
     list_all (\<lambda>p. is_batch BATCH_SIZE st p \<and> holds_bufs st p 0) (pool_full st) \<and>
     list_all (is_batch BATCH_SIZE st) (pool_empty st)"

text \<open>How often a batch occurs in the three queues and in the hands of the batcher.\<close>

definition occurrences :: "pc2_batcher \<Rightarrow> nat \<Rightarrow> nat" where
  "occurrences st q =
     count_list (to_disk st) (Some q) + count_list (pool_full st) (Some q)
     + count_list (pool_empty st) (Some q)
     + (if unbundle_batch st = Some q then 1 else 0)
     + (if bundle_batch st = Some q then 1 else 0)"

section \<open>Disk writes: \<open>process_writes\<close> and the buffers \<open>hash_gpu\<close> hands over (pc2.cu)\<close>

text \<open>
  Modelled from the spec: \<open>file_writer_t<fr_t>\<close> is not among the sources. The call
  \<open>write_data(offset, ptr, size)\<close> stores \<open>size\<close> field elements at element index
  \<open>offset\<close> of the file (the sealed file is indexed by node, a tree file by
  \<open>address / sizeof(fr_t)\<close>). A write is recorded as the file, the element index and the
  elements; its byte offset is the element index times \<open>sizeof(fr_t)\<close>.
\<close>

record 'fr disk_write =
  w_file :: file_id
  w_offset :: nat
  w_data :: "'fr list"

definition byte_offset :: "sealing_config \<Rightarrow> 'fr disk_write \<Rightarrow> nat" where
  "byte_offset C w = w_offset w * sizeof_fr_t C"

text \<open>
  The inner loop of the strided branch:
  \<^verbatim>\<open>staging[j] = to_disk->src[i][j * to_disk->stride];\<close> followed by the optional
  \<open>reverse_l\<close>, for the indices \<open>j\<close> in \<open>js\<close>. \<open>staging\<close> is the array allocated with
  \<open>max_write_size\<close> elements, \<open>storage\<close> is \<open>host_buf_storage\<close> and \<open>s\<close> the index
  \<open>src[i]\<close> points to.
\<close>

primrec gather ::
  "('fr \<Rightarrow> 'fr) \<Rightarrow> 'fr list \<Rightarrow> buf_to_disk_t \<Rightarrow> nat \<Rightarrow> nat list \<Rightarrow> 'fr list
     \<Rightarrow> fault + 'fr list" where
  "gather reverse_l storage b s [] staging = Inr staging"
| "gather reverse_l storage b s (j # js) staging =
     (if \<not> j < length staging then Inl Out_of_bounds
      else if \<not> s + j * stride b < length storage then Inl Out_of_bounds
      else gather reverse_l storage b s js
             (staging[j := (if reverse b then reverse_l (storage ! (s + j * stride b))
                            else storage ! (s + j * stride b))]))"

text \<open>The loop over the sectors in the strided branch.\<close>

primrec strided_sectors ::
  "('fr \<Rightarrow> 'fr) \<Rightarrow> 'fr list \<Rightarrow> buf_to_disk_t \<Rightarrow> nat list \<Rightarrow> 'fr list
     \<Rightarrow> fault + ('fr disk_write list \<times> 'fr list)" where
  "strided_sectors reverse_l storage b [] staging = Inr ([], staging)"
| "strided_sectors reverse_l storage b (i # sectors) staging =
     (if \<not> (i < length (src b) \<and> i < length (dst b)) then Inl Out_of_bounds
      else
        (case src b ! i of
           None \<Rightarrow> strided_sectors reverse_l storage b sectors staging
         | Some s \<Rightarrow>
            (case gather reverse_l storage b s [0 ..< size_b b] staging of
               Inl f \<Rightarrow> Inl f
             | Inr staging' \<Rightarrow>
                (case dst b ! i of
                   None \<Rightarrow> Inl Null_deref
                 | Some d \<Rightarrow>
                    (case strided_sectors reverse_l storage b sectors staging' of
                       Inl f \<Rightarrow> Inl f
                     | Inr (ws, staging'') \<Rightarrow>
                        Inr (\<lparr>w_file = d, w_offset = offset b,
                              w_data = take (size_b b) staging'\<rparr> # ws, staging''))))))"

text \<open>The loop over the sectors in the contiguous branch (\<open>stride == 1\<close>).\<close>

primrec contiguous_sectors ::
  "'fr list \<Rightarrow> buf_to_disk_t \<Rightarrow> nat list \<Rightarrow> fault + 'fr disk_write list" where
  "contiguous_sectors storage b [] = Inr []"
| "contiguous_sectors storage b (i # sectors) =
     (if \<not> (i < length (src b) \<and> i < length (dst b)) then Inl Out_of_bounds
      else
        (case src b ! i of
           None \<Rightarrow> contiguous_sectors storage b sectors
         | Some s \<Rightarrow>
            (case dst b ! i of
               None \<Rightarrow> Inl Null_deref
             | Some d \<Rightarrow>
                if \<not> s + size_b b \<le> length storage then Inl Out_of_bounds
                else
                  (case contiguous_sectors storage b sectors of
                     Inl f \<Rightarrow> Inl f
                   | Inr ws \<Rightarrow>
                      Inr (\<lparr>w_file = d, w_offset = offset b,
                            w_data = take (size_b b) (drop s storage)\<rparr> # ws)))))"

text \<open>
  The body of the loop over the elements of a batch in \<open>process_writes\<close>, for the element
  \<open>to_disk\<close> (\<open>None\<close> is the null pointer). The assertion of the strided branch is the one
  of the source, \<open>assert (max_write_size <= to_disk->size)\<close>.
\<close>

definition process_elmt ::
  "sealing_config \<Rightarrow> nat \<Rightarrow> ('fr \<Rightarrow> 'fr) \<Rightarrow> 'fr list \<Rightarrow> buf_to_disk_t option \<Rightarrow> 'fr list
     \<Rightarrow> fault + ('fr disk_write list \<times> 'fr list)" where
  "process_elmt C max_write_size reverse_l storage elmt staging =
     (case elmt of
        None \<Rightarrow> Inr ([], staging)
      | Some b \<Rightarrow>
         if size_b b = 0 then Inr ([], staging)
         else if stride b = 1
         then (case contiguous_sectors storage b [0 ..< PARALLEL_SECTORS C] of
                 Inl f \<Rightarrow> Inl f
               | Inr ws \<Rightarrow> Inr (ws, staging))
         else if \<not> max_write_size \<le> size_b b then Inl Assert_failed
         else strided_sectors reverse_l storage b [0 ..< PARALLEL_SECTORS C] staging)"

text \<open>
  The buffers \<open>hash_gpu\<close> fills in before it hands them to the batcher. State
  \<open>DATA_WAIT\<close>, the encoded last layer for the sealed file:
\<close>

definition data_wait_to_disk ::
  "sealing_config \<Rightarrow> pc2 \<Rightarrow> nat \<Rightarrow> buf_to_disk_t \<Rightarrow> buf_to_disk_t" where
  "data_wait_to_disk C e start_node b =
     b\<lparr>size_b := batch_size e, stride := PARALLEL_SECTORS C, reverse := True,
       offset := start_node,
       src := map (\<lambda>i. Some (data b + i)) [0 ..< PARALLEL_SECTORS C],
       dst := map (\<lambda>i. Some (Sealed i)) [0 ..< PARALLEL_SECTORS C]\<rparr>"

text \<open>
  State \<open>HASH_COLUMN\<close>, the column hashes of tree-C layer \<open>layer - 1\<close>. The layer of a
  node id is unsigned: \<open>layer - 1\<close> of layer 0 is its largest value, outside every
  table.
\<close>

definition hash_column_to_disk ::
  "sealing_config \<Rightarrow> pc2 \<Rightarrow> nat \<Rightarrow> nat \<Rightarrow> node_id_t \<Rightarrow> buf_to_disk_t
     \<Rightarrow> fault + buf_to_disk_t" where
  "hash_column_to_disk C e part_idx resource_num work_idx b =
     (if layer work_idx = 0 \<or> \<not> layer work_idx - 1 < length (layer_offsets_c e)
      then Inl Out_of_bounds
      else
        (let layer_offset = layer_offsets_c e ! (layer work_idx - 1);
             addr = \<lparr>layer = layer work_idx - 1,
                     node = node work_idx * batch_size e + layer_offset * resource_num\<rparr>
         in case address (tree_c_address e) addr of
              None \<Rightarrow> Inl Out_of_bounds
            | Some offset_c \<Rightarrow>
               Inr (b\<lparr>size_b := batch_size e, stride := 1, reverse := False,
                      offset := offset_c div sizeof_fr_t C,
                      dst := map (\<lambda>i. Some (Tree_c i part_idx)) [0 ..< PARALLEL_SECTORS C],
                      src := map (\<lambda>i. Some (data b + i * batch_size e))
                               [0 ..< PARALLEL_SECTORS C]\<rparr>)))"

text \<open>States \<open>HASH_COLUMN_LEAVES\<close> and \<open>HASH_LEAF\<close>, a layer of tree-C.\<close>

definition tree_c_to_disk ::
  "sealing_config \<Rightarrow> pc2 \<Rightarrow> nat \<Rightarrow> nat \<Rightarrow> node_id_t \<Rightarrow> buf_to_disk_t
     \<Rightarrow> fault + buf_to_disk_t" where
  "tree_c_to_disk C e part_idx resource_num work_idx b =
     (if \<not> layer work_idx < length (layer_offsets_c e) then Inl Out_of_bounds
      else
        (let layer_offset = layer_offsets_c e ! layer work_idx;
             addr = \<lparr>layer = layer work_idx,
                     node = node work_idx * batch_size e div TREE_ARITY C
                            + layer_offset * resource_num\<rparr>
         in case address (tree_c_address e) addr of
              None \<Rightarrow> Inl Out_of_bounds
            | Some offset_c \<Rightarrow>
               Inr (b\<lparr>size_b := batch_size e div TREE_ARITY C, stride := 1, reverse := False,
                      offset := offset_c div sizeof_fr_t C,
                      dst := map (\<lambda>i. Some (Tree_c i part_idx)) [0 ..< PARALLEL_SECTORS C],
                      src := map (\<lambda>i. Some (data b + i * batch_size e div TREE_ARITY C))
                               [0 ..< PARALLEL_SECTORS C]\<rparr>)))"

text \<open>
  State \<open>HASH_LEAF\<close>, a layer of tree-R. A buffer is taken and filled only when
  \<open>write_tree_r\<close> holds, that is when \<open>layer > GetNumTreeRDiscardRows()\<close>; for a layer
  in the discarded rows no tree-R buffer is handed over, which is \<open>None\<close>.
\<close>

definition tree_r_to_disk ::
  "sealing_config \<Rightarrow> pc2 \<Rightarrow> nat \<Rightarrow> nat \<Rightarrow> node_id_t \<Rightarrow> buf_to_disk_t
     \<Rightarrow> fault + buf_to_disk_t option" where
  "tree_r_to_disk C e part_idx resource_num work_idx b =
     (let D = GetNumTreeRDiscardRows (params e)
      in if \<not> layer work_idx > D then Inr None
         else if \<not> layer work_idx - D - 1 < length (layer_offsets_r e) then Inl Out_of_bounds
         else
           (let layer_offset = layer_offsets_r e ! (layer work_idx - D - 1);
                addr = \<lparr>layer = layer work_idx - D - 1,
                        node = node work_idx * batch_size e div TREE_ARITY C
                               + layer_offset * resource_num\<rparr>
            in case address (tree_r_address e) addr of
                 None \<Rightarrow> Inl Out_of_bounds
               | Some offset_r \<Rightarrow>
                  Inr (Some (b\<lparr>size_b := batch_size e div TREE_ARITY C, stride := 1,
                         reverse := False,
                         offset := offset_r div sizeof_fr_t C,
                         dst := map (\<lambda>i. Some (Tree_r i part_idx))
                                  [0 ..< PARALLEL_SECTORS C],
                         src := map (\<lambda>i. Some (data b + i * batch_size e div TREE_ARITY C))
                                  [0 ..< PARALLEL_SECTORS C]\<rparr>))))"

text \<open>
  The buffers a disk writer can find in a batch: the four kinds above, and buffers whose
  size is 0 (a buffer as the constructor made it, or one that \<open>flush\<close> used as padding).
\<close>

inductive engine_produces :: "sealing_config \<Rightarrow> pc2 \<Rightarrow> buf_to_disk_t \<Rightarrow> bool"
  for C :: sealing_config and e :: pc2 where
  sealed: "engine_produces C e (data_wait_to_disk C e start_node b)"
| column: "hash_column_to_disk C e part_idx resource_num work_idx b = Inr b'
             \<Longrightarrow> engine_produces C e b'"
| tree_c: "tree_c_to_disk C e part_idx resource_num work_idx b = Inr b'
             \<Longrightarrow> engine_produces C e b'"
| tree_r: "tree_r_to_disk C e part_idx resource_num work_idx b = Inr (Some b')
             \<Longrightarrow> engine_produces C e b'"
| padding: "size_b b = 0 \<Longrightarrow> engine_produces C e b"

section \<open>Encoding the last layer: state \<open>DATA_WAIT\<close> of \<open>hash_gpu\<close> (pc2.cu)\<close>

text \<open>
  Field elements are values of a type \<open>'fr\<close>. The field addition (\<open>fr_t::operator+=\<close>),
  the byte reversal \<open>node_t::reverse_l\<close>, the Poseidon hasher and the zero element are
  declared outside the sources at hand and are parameters of the model.

  The body of the loop over \<open>j\<close>: reverse when the data of the reader is not big-endian,
  add the element of the data file, reverse back.
\<close>

definition encode_elmt :: "bool \<Rightarrow> ('fr \<Rightarrow> 'fr \<Rightarrow> 'fr) \<Rightarrow> ('fr \<Rightarrow> 'fr) \<Rightarrow> 'fr \<Rightarrow> 'fr \<Rightarrow> 'fr" where
  "encode_elmt data_is_big_endian fr_add reverse_l elmt d =
     (let n1 = (if \<not> data_is_big_endian then reverse_l elmt else elmt);
          n2 = fr_add n1 d;
          n3 = (if \<not> data_is_big_endian then reverse_l n2 else n2)
      in n3)"

text \<open>
  The loop \<open>for (j = 0; j < batch_size; j++)\<close> for sector \<open>i\<close>, over the indices in
  \<open>js\<close>: \<open>data_file\<close> is the mapped data file, \<open>encode_buf\<close> the replica buffer. The
  two indices \<open>resource.start_node + j\<close> and \<open>i + j * C::PARALLEL_SECTORS\<close> are \<open>size_t\<close>
  values.
\<close>

primrec encode_nodes ::
  "bool \<Rightarrow> ('fr \<Rightarrow> 'fr \<Rightarrow> 'fr) \<Rightarrow> ('fr \<Rightarrow> 'fr) \<Rightarrow> nat \<Rightarrow> 'fr list \<Rightarrow> nat \<Rightarrow> nat
     \<Rightarrow> nat list \<Rightarrow> 'fr list \<Rightarrow> fault + 'fr list" where
  "encode_nodes be fr_add reverse_l S data_file start_node i [] encode_buf = Inr encode_buf"
| "encode_nodes be fr_add reverse_l S data_file start_node i (j # js) encode_buf =
     (let d = size_t (start_node + j);
          k = size_t (i + j * S)
      in if \<not> d < length data_file then Inl Out_of_bounds
         else if \<not> k < length encode_buf then Inl Out_of_bounds
         else encode_nodes be fr_add reverse_l S data_file start_node i js
                (encode_buf[k :=
                   encode_elmt be fr_add reverse_l (encode_buf ! k) (data_file ! d)]))"

text \<open>
  The loop over the sectors; \<open>data_files ! i\<close> is \<open>None\<close> when the data file of sector
  \<open>i\<close> is not open.
\<close>

primrec encode_sectors ::
  "bool \<Rightarrow> ('fr \<Rightarrow> 'fr \<Rightarrow> 'fr) \<Rightarrow> ('fr \<Rightarrow> 'fr) \<Rightarrow> nat \<Rightarrow> nat \<Rightarrow> 'fr list option list \<Rightarrow> nat
     \<Rightarrow> nat list \<Rightarrow> 'fr list \<Rightarrow> fault + 'fr list" where
  "encode_sectors be fr_add reverse_l S B data_files start_node [] encode_buf = Inr encode_buf"
| "encode_sectors be fr_add reverse_l S B data_files start_node (i # sectors) encode_buf =
     (if \<not> i < length data_files then Inl Out_of_bounds
      else
        (case data_files ! i of
           None \<Rightarrow> encode_sectors be fr_add reverse_l S B data_files start_node sectors
                     encode_buf
         | Some data_file \<Rightarrow>
            (case encode_nodes be fr_add reverse_l S data_file start_node i [0 ..< B]
                    encode_buf of
               Inl f \<Rightarrow> Inl f
             | Inr encode_buf' \<Rightarrow>
                encode_sectors be fr_add reverse_l S B data_files start_node sectors
                  encode_buf')))"

text \<open>
  Where the last layer starts in \<open>column_data\<close>: at 0 when only tree-R is built, else
  after \<open>GetNumLayers() - 1\<close> layers of \<open>PARALLEL_SECTORS * batch_size\<close> elements.
\<close>

definition layer11_start :: "sealing_config \<Rightarrow> pc2 \<Rightarrow> nat" where
  "layer11_start C e =
     (if tree_r_only e then 0
      else size_t (PARALLEL_SECTORS C * size_t_sub (GetNumLayers (params e)) 1
                     * batch_size e))"

text \<open>
  The replica data after state \<open>DATA_WAIT\<close>: the \<open>memcpy\<close> of the last layer into
  \<open>replica_data\<close>, then the encoding of the sectors that have a data file.
\<close>

definition data_wait_encode ::
  "sealing_config \<Rightarrow> pc2 \<Rightarrow> bool \<Rightarrow> ('fr \<Rightarrow> 'fr \<Rightarrow> 'fr) \<Rightarrow> ('fr \<Rightarrow> 'fr)
     \<Rightarrow> 'fr list option list \<Rightarrow> 'fr list \<Rightarrow> nat \<Rightarrow> fault + 'fr list" where
  "data_wait_encode C e be fr_add reverse_l data_files column_data start_node =
     (if \<not> layer11_start C e + PARALLEL_SECTORS C * batch_size e \<le> length column_data
      then Inl Out_of_bounds
      else encode_sectors be fr_add reverse_l (PARALLEL_SECTORS C) (batch_size e) data_files
             start_node [0 ..< PARALLEL_SECTORS C]
             (take (PARALLEL_SECTORS C * batch_size e)
                (drop (layer11_start C e) column_data)))"


section \<open>The CPU top of a tree: \<open>hash_cpu\<close> (pc2.cu)\<close>

text \<open>
  \<open>work_item_t\<close> as \<open>hash_func\<close> reads it: the node id, the leaf flag and, for an inner
  node, the input buffers (one element per sector each).

  Modelled from the spec: \<open>scheduler_t\<close> (planner.cpp) is not among the sources. It hands
  the work items of one tree to \<open>hash_func\<close> one after the other; \<open>hash_cpu\<close> is modelled
  for one such work item.
\<close>

record 'fr work_item_t =
  idx :: node_id_t
  is_leaf :: bool
  inputs :: "'fr list list"

text \<open>The index of the \<open>i\<close>-th input of a leaf work item for a sector.\<close>

definition leaf_input_index :: "sealing_config \<Rightarrow> nat \<Rightarrow> nat \<Rightarrow> nat \<Rightarrow> nat \<Rightarrow> nat" where
  "leaf_input_index C group_size work_node sector i =
     (let first_input_node = size_t (work_node * TREE_ARITY C);
          input_group = size_t (first_input_node + i) div group_size;
          node_in_group = size_t (first_input_node + i) mod group_size
      in size_t (input_group * group_size * PARALLEL_SECTORS C + sector * group_size
                   + node_in_group))"

text \<open>The inputs \<open>in[0 .. TREE_ARITY - 1]\<close> of the hasher for one sector.\<close>

definition hash_inputs ::
  "sealing_config \<Rightarrow> nat \<Rightarrow> 'fr list \<Rightarrow> 'fr work_item_t \<Rightarrow> nat \<Rightarrow> fault + 'fr list" where
  "hash_inputs C group_size input w sector =
     (if is_leaf w
      then (if group_size = 0 then Inl Division_by_zero
            else if \<not> (\<forall>i \<in> set [0 ..< TREE_ARITY C].
                        leaf_input_index C group_size (node (idx w)) sector i < length input)
            then Inl Out_of_bounds
            else Inr (map (\<lambda>i. input ! leaf_input_index C group_size (node (idx w)) sector i)
                        [0 ..< TREE_ARITY C]))
      else (if \<not> (\<forall>i \<in> set [0 ..< TREE_ARITY C].
                    i < length (inputs w) \<and> sector < length (inputs w ! i))
            then Inl Out_of_bounds
            else Inr (map (\<lambda>i. inputs w ! i ! sector) [0 ..< TREE_ARITY C])))"

text \<open>The loop over the sectors of \<open>hash_func\<close>: the hashes and the writes.\<close>

primrec hash_sectors ::
  "sealing_config \<Rightarrow> ('fr list \<Rightarrow> 'fr) \<Rightarrow> nat \<Rightarrow> 'fr list \<Rightarrow> (nat \<Rightarrow> file_id) \<Rightarrow> nat
     \<Rightarrow> 'fr work_item_t \<Rightarrow> nat list \<Rightarrow> fault + ('fr list \<times> 'fr disk_write list)" where
  "hash_sectors C hasher group_size input tree_file byte_off w [] = Inr ([], [])"
| "hash_sectors C hasher group_size input tree_file byte_off w (sector # sectors) =
     (case hash_inputs C group_size input w sector of
        Inl f \<Rightarrow> Inl f
      | Inr ins \<Rightarrow>
         (case hash_sectors C hasher group_size input tree_file byte_off w sectors of
            Inl f \<Rightarrow> Inl f
          | Inr (outs, ws) \<Rightarrow>
             Inr (hasher ins # outs,
                  \<lparr>w_file = tree_file sector, w_offset = byte_off div sizeof_fr_t C,
                   w_data = [hasher ins]\<rparr> # ws)))"

text \<open>
  \<open>hash_func\<close>: the address one layer down in \<open>final_tree\<close> plus \<open>file_offset\<close> (a sum of
  \<open>size_t\<close> values), then the loop over the sectors. The layer of a node id is unsigned,
  so \<open>layer - 1\<close> of layer 0 is its largest value, outside \<open>final_tree\<close>.
\<close>

definition hash_func ::
  "sealing_config \<Rightarrow> ('fr list \<Rightarrow> 'fr) \<Rightarrow> tree_address \<Rightarrow> nat \<Rightarrow> 'fr list
     \<Rightarrow> (nat \<Rightarrow> file_id) \<Rightarrow> nat \<Rightarrow> 'fr work_item_t
     \<Rightarrow> fault + ('fr list \<times> 'fr disk_write list)" where
  "hash_func C hasher final_tree group_size input tree_file file_offset w =
     (if layer (idx w) = 0 then Inl Out_of_bounds
      else
        (case address final_tree \<lparr>layer = layer (idx w) - 1, node = node (idx w)\<rparr> of
           None \<Rightarrow> Inl Out_of_bounds
         | Some a \<Rightarrow>
            hash_sectors C hasher group_size input tree_file (size_t (a + file_offset)) w
              [0 ..< PARALLEL_SECTORS C]))"

text \<open>\<open>hash_cpu\<close> up to the call of \<open>hash_func\<close> for one work item.\<close>

definition hash_cpu ::
  "sealing_config \<Rightarrow> pc2 \<Rightarrow> ('fr list \<Rightarrow> 'fr) \<Rightarrow> 'fr list \<Rightarrow> (nat \<Rightarrow> file_id) \<Rightarrow> nat
     \<Rightarrow> 'fr work_item_t \<Rightarrow> fault + ('fr list \<times> 'fr disk_write list)" where
  "hash_cpu C e hasher input tree_file file_offset w =
     (if TREE_ARITY C = 0 then Inl Division_by_zero
      else
        (let nodes_to_hash =
               size_t (batch_size e * stream_count e) div TREE_ARITY C div TREE_ARITY C;
             group_size = batch_size e div TREE_ARITY C
         in if group_size mod TREE_ARITY C \<noteq> 0 then Inl Assert_failed
            else
              (case tree_address_t nodes_to_hash (TREE_ARITY C) (sizeof_fr_t C) 0 of
                 None \<Rightarrow> Inl Assert_failed
               | Some final_tree \<Rightarrow>
                  hash_func C hasher final_tree group_size input tree_file file_offset w)))"

text \<open>The two calls in \<open>hash()\<close>: tree-C with \<open>final_gpu_offset_c\<close>, tree-R with
  \<open>final_gpu_offset_r\<close>, each on the files of the partition.\<close>

definition hash_cpu_c ::
  "sealing_config \<Rightarrow> pc2 \<Rightarrow> ('fr list \<Rightarrow> 'fr) \<Rightarrow> 'fr list \<Rightarrow> nat \<Rightarrow> 'fr work_item_t
     \<Rightarrow> fault + ('fr list \<times> 'fr disk_write list)" where
  "hash_cpu_c C e hasher input part_idx w =
     hash_cpu C e hasher input (\<lambda>sector. Tree_c sector part_idx) (final_gpu_offset_c e) w"

definition hash_cpu_r ::
  "sealing_config \<Rightarrow> pc2 \<Rightarrow> ('fr list \<Rightarrow> 'fr) \<Rightarrow> 'fr list \<Rightarrow> nat \<Rightarrow> 'fr work_item_t
     \<Rightarrow> fault + ('fr list \<times> 'fr disk_write list)" where
  "hash_cpu_r C e hasher input part_idx w =
     hash_cpu C e hasher input (\<lambda>sector. Tree_r sector part_idx) (final_gpu_offset_r e) w"


section \<open>The roots file: \<open>write_roots\<close> (pc2.cu)\<close>

text \<open>
  The \<open>TREE_ARITY\<close> values \<open>roots[i * PARALLEL_SECTORS + sector]\<close> that are hashed for a
  sector when there is more than one partition. The two root arrays of the engine have
  \<open>PARALLEL_SECTORS * TREE_ARITY\<close> elements.
\<close>

definition roots_in :: "sealing_config \<Rightarrow> 'fr list \<Rightarrow> nat \<Rightarrow> 'fr list" where
  "roots_in C roots sector =
     map (\<lambda>i. roots ! (i * PARALLEL_SECTORS C + sector)) [0 ..< TREE_ARITY C]"

text \<open>
  Where the roots come from. The constructor creates the two root arrays with
  \<open>PARALLEL_SECTORS * TREE_ARITY\<close> elements; the value of a default-constructed \<open>fr_t\<close>
  is not in the sources and is the parameter \<open>init\<close>.
\<close>

definition initial_partition_roots :: "sealing_config \<Rightarrow> 'fr \<Rightarrow> 'fr list" where
  "initial_partition_roots C init = replicate (PARALLEL_SECTORS C * TREE_ARITY C) init"

text \<open>
  \<open>hash()\<close> hands \<open>&roots[partition * PARALLEL_SECTORS]\<close> to \<open>hash_cpu\<close>, which ends with
  \<^verbatim>\<open>memcpy(roots, &(*host_buf)[0], sizeof(fr_t) * C::PARALLEL_SECTORS);\<close>
  where \<open>host_buf\<close> holds the root of the partition for every sector (\<open>outs\<close>).
\<close>

definition store_partition_roots ::
  "sealing_config \<Rightarrow> 'fr list \<Rightarrow> nat \<Rightarrow> 'fr list \<Rightarrow> fault + 'fr list" where
  "store_partition_roots C roots part_idx outs =
     (if \<not> PARALLEL_SECTORS C \<le> length outs then Inl Out_of_bounds
      else if \<not> part_idx * PARALLEL_SECTORS C + PARALLEL_SECTORS C \<le> length roots
      then Inl Out_of_bounds
      else Inr (take (part_idx * PARALLEL_SECTORS C) roots
                @ take (PARALLEL_SECTORS C) outs
                @ drop (part_idx * PARALLEL_SECTORS C + PARALLEL_SECTORS C) roots))"

text \<open>
  The loop \<open>for (partition = 0; partition < params.GetNumTreeRCFiles(); partition++)\<close>
  of \<open>hash()\<close> as far as one root array is concerned; \<open>outs_of p\<close> are the roots
  \<open>hash_cpu\<close> computes for partition \<open>p\<close>.
\<close>

primrec store_roots ::
  "sealing_config \<Rightarrow> (nat \<Rightarrow> 'fr list) \<Rightarrow> nat list \<Rightarrow> 'fr list \<Rightarrow> fault + 'fr list" where
  "store_roots C outs_of [] roots = Inr roots"
| "store_roots C outs_of (p # ps) roots =
     (case store_partition_roots C roots p (outs_of p) of
        Inl f \<Rightarrow> Inl f
      | Inr roots' \<Rightarrow> store_roots C outs_of ps roots')"

text \<open>The roots of the partitions of a sector are therefore these entries.\<close>

definition partition_roots :: "sealing_config \<Rightarrow> pc2 \<Rightarrow> 'fr list \<Rightarrow> nat \<Rightarrow> 'fr list" where
  "partition_roots C e roots sector =
     map (\<lambda>p. roots ! (p * PARALLEL_SECTORS C + sector)) [0 ..< GetNumTreeRCFiles (params e)]"

text \<open>
  The two writes to the \<open>p_aux\<close> file of one sector (the body of either loop over the
  sectors): the file is opened and two elements are written one after the other.
\<close>

definition write_roots_sector ::
  "sealing_config \<Rightarrow> pc2 \<Rightarrow> ('fr list \<Rightarrow> 'fr) \<Rightarrow> 'fr \<Rightarrow> 'fr list \<Rightarrow> 'fr list \<Rightarrow> nat
     \<Rightarrow> 'fr disk_write list" where
  "write_roots_sector C e hasher zero roots_c roots_r sector =
     (if GetNumTreeRCFiles (params e) > 1
      then (let out_c = hasher (roots_in C roots_c sector);
                out_r = hasher (roots_in C roots_r sector)
            in [\<lparr>w_file = P_aux sector, w_offset = 0,
                 w_data = [if tree_r_only e then zero else out_c]\<rparr>,
                \<lparr>w_file = P_aux sector, w_offset = 1, w_data = [out_r]\<rparr>])
      else (let out_c = roots_c ! sector;
                out_r = roots_r ! sector
            in [\<lparr>w_file = P_aux sector, w_offset = 0,
                 w_data = [if tree_r_only e then zero else out_c]\<rparr>,
                \<lparr>w_file = P_aux sector, w_offset = 1, w_data = [out_r]\<rparr>]))"

text \<open>\<open>write_roots\<close>: every sector in turn. The root arrays must hold the elements read.\<close>

definition write_roots ::
  "sealing_config \<Rightarrow> pc2 \<Rightarrow> ('fr list \<Rightarrow> 'fr) \<Rightarrow> 'fr \<Rightarrow> 'fr list \<Rightarrow> 'fr list
     \<Rightarrow> fault + 'fr disk_write list" where
  "write_roots C e hasher zero roots_c roots_r =
     (if \<not> (PARALLEL_SECTORS C * TREE_ARITY C \<le> length roots_c \<and>
            PARALLEL_SECTORS C * TREE_ARITY C \<le> length roots_r)
      then Inl Out_of_bounds
      else Inr (concat (map (write_roots_sector C e hasher zero roots_c roots_r)
                          [0 ..< PARALLEL_SECTORS C])))"

section \<open>Facts about \<open>tree_address_t\<close>\<close>

lemma size_t_small: "x < 2 ^ 64 \<Longrightarrow> size_t x = x"
  by (simp add: size_t_def)

lemma size_t_less: "size_t x < 2 ^ 64"
  by (simp add: size_t_def)

lemma size_t_sum: "size_t (size_t a + size_t b) = size_t (a + b)"
  by (simp add: size_t_def mod_add_eq)

lemma size_t_prod: "size_t (size_t a * size_t b) = size_t (a * b)"
  by (simp add: size_t_def mod_mult_eq)

lemma skip_layers_div: "skip_layers ar k n = n div ar ^ k"
  by (induction k arbitrary: n) (simp_all add: div_mult2_eq)

lemma nodes_at_div:
  "nodes_at lc ar skips i = lc div ar ^ skips div ar ^ i"
  by (simp add: nodes_at_def skip_layers_div)

lemma twice_div_le:
  assumes "2 \<le> (ar::nat)"
  shows "2 * (n div ar) \<le> n"
proof -
  from assms have "2 * (n div ar) \<le> ar * (n div ar)" by (intro mult_le_mono1)
  also have "\<dots> \<le> n" by simp
  finally show ?thesis .
qed

lemma div_pow_sum_le:
  assumes ar: "2 \<le> (ar::nat)"
  shows "(\<Sum>j<i. n div ar ^ j) \<le> 2 * n"
proof (induction i arbitrary: n)
  case 0
  then show ?case by simp
next
  case (Suc i)
  have "(\<Sum>j<Suc i. n div ar ^ j) = n + (\<Sum>j<i. n div ar div ar ^ j)"
    by (subst sum.lessThan_Suc_shift) (simp add: div_mult2_eq)
  also have "\<dots> \<le> n + 2 * (n div ar)" using Suc.IH [of "n div ar"] by simp
  also have "\<dots> \<le> n + n" using twice_div_le [OF ar, of n] by simp
  finally show ?case by simp
qed

lemma layer_loop_spec:
  assumes ar: "2 \<le> ar" and bound: "off + 2 * n * ns < 2 ^ 64"
  shows "\<exists>ys. layer_loop ar ns offs off n = Some (offs @ ys) \<and> ys \<noteq> [] \<and> ys ! 0 = off
           \<and> (\<forall>i. Suc i < length ys \<longrightarrow>
                  ys ! Suc i = ys ! i + (n div ar ^ i) * ns \<and> 1 < n div ar ^ i)
           \<and> n div ar ^ (length ys - 1) \<le> 1"
  using bound
proof (induction n arbitrary: offs off rule: less_induct)
  case (less n)
  show ?case
  proof (cases "1 < n")
    case False
    then have "layer_loop ar ns offs off n = Some (offs @ [off])"
      by (subst layer_loop.simps) simp
    with False show ?thesis by simp
  next
    case True
    with ar have lt: "n div ar < n" by simp
    define m where "m = n * ns"
    define x where "x = 2 * (n div ar) * ns"
    have "x \<le> m" unfolding x_def m_def by (rule mult_le_mono1 [OF twice_div_le [OF ar]])
    moreover from less.prems have "off + (m + m) < 2 ^ 64" by (simp add: m_def)
    ultimately have "off + m < 2 ^ 64" and "off + m + x < 2 ^ 64" by simp_all
    then have "off + n * ns < 2 ^ 64" and "off + n * ns + 2 * (n div ar) * ns < 2 ^ 64"
      by (simp_all add: m_def x_def)
    note this (2)
    moreover from \<open>off + n * ns < 2 ^ 64\<close>
    have wrap: "size_t (off + n * ns) = off + n * ns" by (rule size_t_small)
    ultimately have "off + n * ns + 2 * (n div ar) * ns < 2 ^ 64" by simp
    from less.IH [OF lt this, of "offs @ [off]"]
    obtain ys where run: "layer_loop ar ns (offs @ [off]) (off + n * ns) (n div ar)
                            = Some ((offs @ [off]) @ ys)"
      and ne: "ys \<noteq> []" and hd: "ys ! 0 = off + n * ns"
      and step: "\<And>i. Suc i < length ys \<Longrightarrow>
                   ys ! Suc i = ys ! i + (n div ar div ar ^ i) * ns \<and> 1 < n div ar div ar ^ i"
      and stop: "n div ar div ar ^ (length ys - 1) \<le> 1"
      by blast
    let ?zs = "off # ys"
    have "layer_loop ar ns offs off n = Some (offs @ ?zs)"
      using True run by (subst layer_loop.simps) (simp add: wrap)
    moreover have "\<forall>i. Suc i < length ?zs \<longrightarrow>
                     ?zs ! Suc i = ?zs ! i + (n div ar ^ i) * ns \<and> 1 < n div ar ^ i"
    proof (intro allI impI)
      fix i
      assume i: "Suc i < length ?zs"
      show "?zs ! Suc i = ?zs ! i + (n div ar ^ i) * ns \<and> 1 < n div ar ^ i"
      proof (cases i)
        case 0
        with hd True show ?thesis by simp
      next
        case (Suc j)
        with i have "Suc j < length ys" by simp
        from step [OF this] Suc show ?thesis by (simp add: div_mult2_eq)
      qed
    qed
    moreover have "n div ar ^ (length ?zs - 1) \<le> 1"
    proof -
      from ne obtain m where m: "length ys = Suc m" by (cases ys) auto
      with stop have "n div ar div ar ^ m \<le> 1" by simp
      then have "n div ar ^ Suc m \<le> 1" by (simp add: div_mult2_eq)
      with m show ?thesis by simp
    qed
    ultimately show ?thesis by (intro exI [of _ ?zs]) simp
  qed
qed

lemma offs_mono:
  assumes step: "\<And>i. Suc i < length ys \<Longrightarrow> ys ! Suc i = ys ! i + c i * (ns::nat)"
  shows "i \<le> j \<Longrightarrow> j < length ys \<Longrightarrow> ys ! i \<le> ys ! j"
proof (induction j)
  case 0
  then show ?case by simp
next
  case (Suc j)
  show ?case
  proof (cases "i = Suc j")
    case True
    then show ?thesis by simp
  next
    case False
    with Suc.prems have "i \<le> j" "j < length ys" by simp_all
    with Suc.IH have "ys ! i \<le> ys ! j" by simp
    with step [OF Suc.prems(2)] show ?thesis by simp
  qed
qed

lemma offs_sum:
  assumes step: "\<And>i. Suc i < length ys \<Longrightarrow> ys ! Suc i = ys ! i + c i * (ns::nat)"
    and zero: "ys ! 0 = 0"
  shows "i < length ys \<Longrightarrow> ys ! i = (\<Sum>j<i. c j) * ns"
proof (induction i)
  case 0
  with zero show ?case by simp
next
  case (Suc i)
  then have "ys ! i = (\<Sum>j<i. c j) * ns" by simp
  with step [OF Suc.prems] show ?case by (simp add: add_mult_distrib)
qed

lemma tree_address_t_spec:
  assumes ar: "2 \<le> ar" and dv: "lc mod ar = 0" and small: "(2 * lc + 1) * ns < 2 ^ 64"
  shows "\<exists>t. tree_address_t lc ar ns skips = Some t \<and> arity t = ar \<and> node_size t = ns
           \<and> layer_offsets t \<noteq> [] \<and> layer_offsets t ! 0 = 0
           \<and> (\<forall>i. Suc i < length (layer_offsets t) \<longrightarrow>
                  layer_offsets t ! Suc i = layer_offsets t ! i + nodes_at lc ar skips i * ns
                  \<and> 1 < nodes_at lc ar skips i)
           \<and> nodes_at lc ar skips (length (layer_offsets t) - 1) \<le> 1
           \<and> last (layer_offsets t) + ns < 2 ^ 64
           \<and> data_size t = last (layer_offsets t) + ns"
proof -
  let ?n = "skip_layers ar skips lc"
  have nle: "?n \<le> lc" by (simp add: skip_layers_div)
  then have "?n * ns \<le> lc * ns" by (rule mult_le_mono1)
  moreover from small have sm: "lc * ns + lc * ns + ns < 2 ^ 64"
    by (simp add: add_mult_distrib)
  ultimately have "?n * ns + ?n * ns < 2 ^ 64" by linarith
  moreover have "0 + 2 * ?n * ns = ?n * ns + ?n * ns" by simp
  ultimately have b0: "0 + 2 * ?n * ns < 2 ^ 64" by (simp only:)
  from layer_loop_spec [OF ar b0, of "[]"]
  obtain ys where run: "layer_loop ar ns [] 0 ?n = Some ys"
    and ne: "ys \<noteq> []" and z: "ys ! 0 = 0"
    and step: "\<forall>i. Suc i < length ys \<longrightarrow>
           ys ! Suc i = ys ! i + (?n div ar ^ i) * ns \<and> 1 < ?n div ar ^ i"
    and stop: "?n div ar ^ (length ys - 1) \<le> 1"
    by auto
  from ne have "last ys = ys ! (length ys - 1)" by (simp add: last_conv_nth)
  also have "\<dots> = (\<Sum>j<length ys - 1. ?n div ar ^ j) * ns"
    using offs_sum [of ys "\<lambda>i. ?n div ar ^ i" ns "length ys - 1"] step z ne by simp
  also have "\<dots> \<le> (2 * ?n) * ns"
    using div_pow_sum_le [OF ar, of ?n "length ys - 1"] by (rule mult_le_mono1)
  also have "\<dots> \<le> (2 * lc) * ns" using nle by (intro mult_le_mono1) simp
  finally have "last ys \<le> lc * ns + lc * ns" by simp
  with sm have lim: "last ys + ns < 2 ^ 64" by simp
  define t where "t = \<lparr>leaf_count = lc, arity = ar, node_size = ns, layer_offsets = ys\<rparr>"
  from ar dv run have "tree_address_t lc ar ns skips = Some t"
    by (simp add: tree_address_t_def t_def)
  moreover from lim have "data_size t = last (layer_offsets t) + ns"
    by (simp add: data_size_def t_def size_t_small)
  moreover from step
  have "\<forall>i. Suc i < length (layer_offsets t) \<longrightarrow>
          layer_offsets t ! Suc i = layer_offsets t ! i + nodes_at lc ar skips i * ns
          \<and> 1 < nodes_at lc ar skips i"
    by (simp add: t_def nodes_at_def skip_layers_div)
  moreover from stop have "nodes_at lc ar skips (length (layer_offsets t) - 1) \<le> 1"
    by (simp add: t_def nodes_at_def skip_layers_div)
  ultimately show ?thesis using ne z lim by (intro exI [of _ t]) (simp add: t_def)
qed

lemma address_below_next:
  assumes step: "\<And>i. Suc i < length ys \<Longrightarrow> ys ! Suc i = ys ! i + c i * (ns::nat)"
    and "Suc l < length ys" and "n < c l"
  shows "ys ! l + n * ns + ns \<le> ys ! Suc l"
proof -
  from \<open>n < c l\<close> have "Suc n \<le> c l" by simp
  then have "Suc n * ns \<le> c l * ns" by (rule mult_le_mono1)
  with step [OF assms(2)] show ?thesis by simp
qed

lemma tree_address_facts:
  assumes ar: "2 \<le> ar" and ns: "0 < ns" and small: "(2 * lc + 1) * ns < 2 ^ 64"
    and t: "tree_address_t lc ar ns skips = Some t"
  shows "node_size t = ns \<and> data_size t = last (layer_offsets t) + ns \<and>
         data_size t < 2 ^ 64 \<and>
         (\<forall>a. inside_tree lc skips t a \<longrightarrow>
              address t a = Some (layer_offsets t ! layer a + node a * ns) \<and>
              layer_offsets t ! layer a + node a * ns < data_size t) \<and>
         (\<forall>a b. inside_tree lc skips t a \<and> inside_tree lc skips t b \<and> node_id_less a b \<longrightarrow>
              layer_offsets t ! layer a + node a * ns
                < layer_offsets t ! layer b + node b * ns)"
proof -
  from t ar have dv: "lc mod ar = 0"
    by (auto simp: tree_address_t_def split: if_splits)
  from tree_address_t_spec [OF ar dv small, of skips] t
  have [simp]: "arity t = ar" "node_size t = ns"
    and ne: "layer_offsets t \<noteq> []"
    and step: "\<And>i. Suc i < length (layer_offsets t) \<Longrightarrow>
                 layer_offsets t ! Suc i = layer_offsets t ! i + nodes_at lc ar skips i * ns"
    and stop: "nodes_at lc ar skips (length (layer_offsets t) - 1) \<le> 1"
    and lim: "last (layer_offsets t) + ns < 2 ^ 64"
    and ds: "data_size t = last (layer_offsets t) + ns"
    by auto
  let ?ys = "layer_offsets t"
  have bound: "?ys ! layer a + node a * ns < data_size t" if a: "inside_tree lc skips t a" for a
  proof (cases "Suc (layer a) < length ?ys")
    case True
    from a have "node a < nodes_at lc ar skips (layer a)" by (simp add: inside_tree_def)
    from address_below_next [of ?ys "nodes_at lc ar skips" ns, OF step True this]
    have "?ys ! layer a + node a * ns + ns \<le> ?ys ! Suc (layer a)" .
    moreover have "?ys ! Suc (layer a) \<le> ?ys ! (length ?ys - 1)"
      using True by (intro offs_mono [of ?ys "nodes_at lc ar skips" ns, OF step]) simp_all
    ultimately show ?thesis using ns ne by (simp add: ds last_conv_nth)
  next
    case False
    with a have l: "layer a = length ?ys - 1" by (auto simp: inside_tree_def)
    with a stop have "node a = 0" by (simp add: inside_tree_def)
    with l ns ne show ?thesis by (simp add: ds last_conv_nth)
  qed
  have adr: "address t a = Some (?ys ! layer a + node a * ns)"
    if a: "inside_tree lc skips t a" for a
  proof -
    from bound [OF a] lim ds have "?ys ! layer a + node a * ns < 2 ^ 64" by simp
    with a show ?thesis by (simp add: address_def inside_tree_def size_t_small)
  qed
  have mono: "?ys ! layer a + node a * ns < ?ys ! layer b + node b * ns"
    if a: "inside_tree lc skips t a" and b: "inside_tree lc skips t b" and lt: "node_id_less a b"
    for a b
  proof (cases "layer a < layer b")
    case True
    with b have S: "Suc (layer a) < length ?ys" by (simp add: inside_tree_def)
    from a have "node a < nodes_at lc ar skips (layer a)" by (simp add: inside_tree_def)
    from address_below_next [of ?ys "nodes_at lc ar skips" ns, OF step S this]
    have "?ys ! layer a + node a * ns + ns \<le> ?ys ! Suc (layer a)" .
    moreover have "?ys ! Suc (layer a) \<le> ?ys ! layer b"
      using True b
      by (intro offs_mono [of ?ys "nodes_at lc ar skips" ns, OF step])
         (simp_all add: inside_tree_def)
    ultimately show ?thesis using ns by simp
  next
    case False
    with lt have "layer a = layer b" "node a < node b" by (auto simp: node_id_less_def)
    with ns show ?thesis by simp
  qed
  from lim ds have "data_size t < 2 ^ 64" by simp
  with ds bound adr mono show ?thesis by simp
qed

text \<open>
  Claim C5. For a tree built by the constructor (arity at least 2, the leaf count a multiple
  of the arity, a positive node size) whose size stays below \<open>2 ^ 64\<close> bytes (twice the
  leaf count plus one, times the node size, bounds the size of the file) and every node id
  inside the tree, \<open>address\<close> returns \<open>layer_offsets[layer] + node * node_size\<close>, that
  address lies below \<open>data_size()\<close>, and \<open>address\<close> is strictly monotone for the
  lexicographic order on \<open>(layer, node)\<close>.
\<close>

theorem tree_address_inside:
  assumes ar: "2 \<le> ar" and dv: "lc mod ar = 0" and ns: "0 < ns"
    and small: "(2 * lc + 1) * ns < 2 ^ 64"
  shows "\<exists>t. tree_address_t lc ar ns skips = Some t \<and>
           (\<forall>a. inside_tree lc skips t a \<longrightarrow>
                 (\<exists>x. address t a = Some x \<and> x = layer_offsets t ! layer a + node a * node_size t
                      \<and> x < data_size t)) \<and>
           (\<forall>a b. inside_tree lc skips t a \<and> inside_tree lc skips t b \<and> node_id_less a b \<longrightarrow>
                 (\<exists>x y. address t a = Some x \<and> address t b = Some y \<and> x < y))"
proof -
  from tree_address_t_spec [OF ar dv small, of skips]
  obtain t where t: "tree_address_t lc ar ns skips = Some t" by blast
  from tree_address_facts [OF ar ns small t]
  have nsz: "node_size t = ns"
    and adr: "\<And>a. inside_tree lc skips t a \<Longrightarrow>
                address t a = Some (layer_offsets t ! layer a + node a * ns)"
    and bound: "\<And>a. inside_tree lc skips t a \<Longrightarrow>
                layer_offsets t ! layer a + node a * ns < data_size t"
    and mono: "\<And>a b. inside_tree lc skips t a \<Longrightarrow> inside_tree lc skips t b \<Longrightarrow>
                 node_id_less a b \<Longrightarrow>
                 layer_offsets t ! layer a + node a * ns
                   < layer_offsets t ! layer b + node b * ns"
    by blast+
  show ?thesis
  proof (intro exI [of _ t] conjI allI impI)
    show "tree_address_t lc ar ns skips = Some t" by (rule t)
  next
    fix a assume "inside_tree lc skips t a"
    with adr [of a] bound [of a]
    show "\<exists>x. address t a = Some x \<and> x = layer_offsets t ! layer a + node a * node_size t
              \<and> x < data_size t"
      by (simp add: nsz)
  next
    fix a b
    assume "inside_tree lc skips t a \<and> inside_tree lc skips t b \<and> node_id_less a b"
    with mono [of a b] adr [of a] adr [of b]
    show "\<exists>x y. address t a = Some x \<and> address t b = Some y \<and> x < y"
      by simp
  qed
qed

theorem tree_address_inside_witness:
  "2 \<le> (8::nat) \<and> (64::nat) mod 8 = 0 \<and> (0::nat) < 32 \<and> (2 * 64 + 1) * 32 < (2::nat) ^ 64 \<and>
   tree_address_t 64 8 32 0 =
     Some \<lparr>leaf_count = 64, arity = 8, node_size = 32, layer_offsets = [0, 2048, 2304]\<rparr> \<and>
   inside_tree 64 0
     \<lparr>leaf_count = 64, arity = 8, node_size = 32, layer_offsets = [0, 2048, 2304]\<rparr>
     \<lparr>layer = 0, node = 63\<rparr> \<and>
   inside_tree 64 0
     \<lparr>leaf_count = 64, arity = 8, node_size = 32, layer_offsets = [0, 2048, 2304]\<rparr>
     \<lparr>layer = 1, node = 0\<rparr> \<and>
   node_id_less \<lparr>layer = 0, node = 63\<rparr> \<lparr>layer = 1, node = 0\<rparr> \<and>
   (\<exists>x y. address \<lparr>leaf_count = 64, arity = 8, node_size = 32, layer_offsets = [0, 2048, 2304]\<rparr>
            \<lparr>layer = 0, node = 63\<rparr> = Some x \<and>
          address \<lparr>leaf_count = 64, arity = 8, node_size = 32, layer_offsets = [0, 2048, 2304]\<rparr>
            \<lparr>layer = 1, node = 0\<rparr> = Some y \<and> x < y \<and>
          y < data_size \<lparr>leaf_count = 64, arity = 8, node_size = 32,
                          layer_offsets = [0, 2048, 2304]\<rparr>)"
proof -
  define T where "T = \<lparr>leaf_count = 64, arity = 8, node_size = 32,
                         layer_offsets = [0, 2048, 2304]\<rparr>"
  define a where "a = \<lparr>layer = 0, node = 63\<rparr>"
  define b where "b = \<lparr>layer = 1, node = 0\<rparr>"
  have h: "2 \<le> (8::nat)" "(64::nat) mod 8 = 0" "(0::nat) < 32"
    "(2 * 64 + 1) * 32 < (2::nat) ^ 64"
    by simp_all
  have T: "tree_address_t 64 8 32 0 = Some T"
    by (simp add: T_def tree_address_t_def layer_loop.simps size_t_def)
  have ia: "inside_tree 64 0 T a" and ib: "inside_tree 64 0 T b"
    by (simp_all add: T_def a_def b_def inside_tree_def nodes_at_div)
  have lt: "node_id_less a b" by (simp add: a_def b_def node_id_less_def)
  from tree_address_inside [OF h, of 0]
  obtain t where t: "tree_address_t 64 8 32 0 = Some t"
    and in_file: "\<And>c. inside_tree 64 0 t c \<Longrightarrow> \<exists>x. address t c = Some x \<and> x < data_size t"
    and mono: "\<And>c d. inside_tree 64 0 t c \<Longrightarrow> inside_tree 64 0 t d \<Longrightarrow> node_id_less c d \<Longrightarrow>
                 \<exists>x y. address t c = Some x \<and> address t d = Some y \<and> x < y"
    by blast
  from t T have tT: "t = T" by simp
  from mono [of a b] ia ib lt tT
  obtain x y where x: "address T a = Some x" and y: "address T b = Some y" and xy: "x < y"
    by blast
  from in_file [of b] ib tT y have "y < data_size T" by auto
  with x y xy have "\<exists>x y. address T a = Some x \<and> address T b = Some y \<and> x < y \<and> y < data_size T"
    by blast
  with h T ia ib lt show ?thesis
    unfolding T_def a_def b_def by blast
qed

lemma pow_div_pow:
  assumes "2 \<le> (A::nat)"
  shows "A ^ k div A ^ j = (if j \<le> k then A ^ (k - j) else 0)"
proof (cases "j \<le> k")
  case True
  with assms show ?thesis by (simp add: power_diff)
next
  case False
  with assms have "A ^ k < A ^ j" by (intro power_strict_increasing) simp_all
  with False show ?thesis by simp
qed

lemma sum_pow_rev:
  "(\<Sum>j = D + 1..D + 1 + m. (A::nat) ^ (D + 1 + m - j)) = (\<Sum>i\<le>m. A ^ (m - i))"
proof -
  have "(\<Sum>j = D + 1..D + 1 + m. A ^ (D + 1 + m - j)) = (\<Sum>i = 0..m. A ^ (D + 1 + m - (i + (D + 1))))"
    using sum.shift_bounds_cl_nat_ivl [of "\<lambda>j. A ^ (D + 1 + m - j)" 0 "D + 1" m]
    by (simp add: add.commute)
  also have "\<dots> = (\<Sum>i\<le>m. A ^ (m - i))"
    by (simp add: atMost_atLeast0)
  finally show ?thesis .
qed

text \<open>
  Claim C6. Over \<open>A ^ k\<close> leaves (a \<open>size_t\<close> value), with \<open>layer_skips = D + 1 \<le> k\<close>
  and a size below \<open>2 ^ 64\<close> bytes (twice the leaf count plus one, times the node size,
  bounds the size of the file), the constructor stores the \<open>k - D\<close> layers above the bottom \<open>D + 1\<close> layers of the logical tree: stored
  layer \<open>i\<close> has the node count of logical layer \<open>D + 1 + i\<close> (so stored layer 0 has
  \<open>leaf_count / A ^ (D + 1)\<close> nodes), the first offset is 0, each next offset adds the
  bytes of the layer before it, and \<open>data_size()\<close> is \<open>node_size\<close> times the number of
  nodes of the logical layers \<open>D + 1 .. k\<close>.
\<close>

theorem tree_address_skips:
  assumes ar: "2 \<le> A" and D: "D < k"
    and lc: "A ^ k < 2 ^ 64" and small: "(2 * A ^ k + 1) * ns < 2 ^ 64"
  shows "\<exists>t. tree_address_t (A ^ k) A ns (D + 1) = Some t \<and>
           length (layer_offsets t) = k - D \<and>
           (\<forall>i < k - D. nodes_at (A ^ k) A (D + 1) i = A ^ k div A ^ (D + 1) div A ^ i
                       \<and> nodes_at (A ^ k) A (D + 1) i = A ^ (k - (D + 1 + i))) \<and>
           layer_offsets t ! 0 = 0 \<and>
           (\<forall>i. Suc i < length (layer_offsets t) \<longrightarrow>
                layer_offsets t ! Suc i
                  = layer_offsets t ! i + nodes_at (A ^ k) A (D + 1) i * node_size t) \<and>
           data_size t = ns * (\<Sum>j = D + 1..k. A ^ (k - j))"
proof -
  define m where "m = k - (D + 1)"
  with D have k: "k = D + 1 + m" by simp
  define c where "c = nodes_at (A ^ k) A (D + 1)"
  have c_eq: "c i = (if i \<le> m then A ^ (m - i) else 0)" for i
    using ar by (simp add: c_def nodes_at_div k div_mult2_eq [symmetric] power_add [symmetric]
                      pow_div_pow del: power_Suc)
  from D ar have "A ^ k mod A = 0" by (cases k) simp_all
  from tree_address_t_spec [OF ar this small, of "D + 1"]
  obtain t where t: "tree_address_t (A ^ k) A ns (D + 1) = Some t"
    and [simp]: "node_size t = ns"
    and dsz: "data_size t = last (layer_offsets t) + ns"
    and ne: "layer_offsets t \<noteq> []" and zero: "layer_offsets t ! 0 = 0"
    and step: "\<And>i. Suc i < length (layer_offsets t) \<Longrightarrow>
                 layer_offsets t ! Suc i = layer_offsets t ! i + c i * ns"
    and more: "\<And>i. Suc i < length (layer_offsets t) \<Longrightarrow> 1 < c i"
    and stop: "c (length (layer_offsets t) - 1) \<le> 1"
    unfolding c_def by blast
  let ?ys = "layer_offsets t"
  have len: "length ?ys = Suc m"
  proof -
    have "m \<le> length ?ys - 1"
    proof (rule ccontr)
      assume "\<not> m \<le> length ?ys - 1"
      then have lt: "length ?ys - 1 < m" by simp
      then have "A ^ 1 \<le> A ^ (m - (length ?ys - 1))"
        using ar by (intro power_increasing) simp_all
      with stop lt ar show False by (simp add: c_eq)
    qed
    moreover have "length ?ys - 1 \<le> m"
    proof (rule ccontr)
      assume "\<not> length ?ys - 1 \<le> m"
      then have "Suc m < length ?ys" by simp
      from more [OF this] show False by (simp add: c_eq)
    qed
    ultimately show ?thesis using ne by (cases ?ys) simp_all
  qed
  have "last ?ys = ?ys ! m" using ne len by (simp add: last_conv_nth)
  also have "\<dots> = (\<Sum>j<m. c j) * ns"
    using offs_sum [of ?ys c ns m, OF step zero] len by simp
  also have "(\<Sum>j<m. c j) = (\<Sum>j<m. A ^ (m - j))"
    by (rule sum.cong) (simp_all add: c_eq)
  finally have "data_size t = ((\<Sum>j<m. A ^ (m - j)) + A ^ (m - m)) * ns"
    by (simp add: dsz add_mult_distrib)
  also have "(\<Sum>j<m. A ^ (m - j)) + A ^ (m - m) = (\<Sum>j\<le>m. A ^ (m - j))"
    by (simp add: lessThan_Suc_atMost [symmetric] del: diff_self_eq_0)
  also have "\<dots> = (\<Sum>j = D + 1..k. A ^ (k - j))"
    unfolding k by (rule sum_pow_rev [symmetric])
  finally have ds: "data_size t = ns * (\<Sum>j = D + 1..k. A ^ (k - j))"
    by (simp add: mult.commute)
  have cs: "\<forall>i < k - D. nodes_at (A ^ k) A (D + 1) i = A ^ k div A ^ (D + 1) div A ^ i
                     \<and> nodes_at (A ^ k) A (D + 1) i = A ^ (k - (D + 1 + i))"
  proof (intro allI impI conjI)
    fix i assume "i < k - D"
    with k have "i \<le> m" by simp
    then have "c i = A ^ (m - i)" by (simp add: c_eq)
    moreover have "k - (D + 1 + i) = m - i" using k by simp
    ultimately show "nodes_at (A ^ k) A (D + 1) i = A ^ (k - (D + 1 + i))"
      unfolding c_def by simp
  qed (rule nodes_at_div)
  have len': "length ?ys = k - D" using len k by simp
  have step': "\<forall>i. Suc i < length ?ys \<longrightarrow>
                 ?ys ! Suc i = ?ys ! i + nodes_at (A ^ k) A (D + 1) i * node_size t"
    using step unfolding c_def by simp
  from t len' cs zero step' ds show ?thesis by blast
qed


theorem tree_address_skips_witness:
  "2 \<le> (8::nat) \<and> (0::nat) < 2 \<and> (8::nat) ^ 2 < 2 ^ 64 \<and>
   (2 * 8 ^ 2 + 1) * 32 < (2::nat) ^ 64 \<and>
   tree_address_t (8 ^ 2) 8 32 (0 + 1) =
     Some \<lparr>leaf_count = 64, arity = 8, node_size = 32, layer_offsets = [0, 256]\<rparr> \<and>
   (0::nat) < 2 - 0 \<and> nodes_at (8 ^ 2) 8 (0 + 1) 0 = 8 ^ (2 - (0 + 1 + 0)) \<and>
   Suc 0 < length [0::nat, 256] \<and>
   [0::nat, 256] ! Suc 0 = [0, 256] ! 0 + nodes_at (8 ^ 2) 8 (0 + 1) 0 * 32 \<and>
   data_size \<lparr>leaf_count = 64, arity = 8, node_size = 32, layer_offsets = [0, 256]\<rparr>
     = 32 * (\<Sum>j = 0 + 1..2. 8 ^ (2 - j))"
proof -
  define T where "T = \<lparr>leaf_count = 64, arity = 8, node_size = 32, layer_offsets = [0, 256]\<rparr>"
  have h: "2 \<le> (8::nat)" "(0::nat) < 2" "(8::nat) ^ 2 < 2 ^ 64"
    "(2 * 8 ^ 2 + 1) * 32 < (2::nat) ^ 64"
    by simp_all
  have T: "tree_address_t (8 ^ 2) 8 32 (0 + 1) = Some T"
    by (simp add: T_def tree_address_t_def layer_loop.simps size_t_def)
  from tree_address_skips [OF h]
  obtain t where t: "tree_address_t (8 ^ 2) 8 32 (0 + 1) = Some t"
    and cnt: "\<forall>i < 2 - 0. nodes_at (8 ^ 2) 8 (0 + 1) i = 8 ^ (2 - (0 + 1 + i))"
    and step: "\<forall>i. Suc i < length (layer_offsets t) \<longrightarrow>
                 layer_offsets t ! Suc i
                   = layer_offsets t ! i + nodes_at (8 ^ 2) 8 (0 + 1) i * node_size t"
    and ds: "data_size t = 32 * (\<Sum>j = 0 + 1..2. 8 ^ (2 - j))"
    by blast
  from t T have tT: "t = T" by simp
  have "(0::nat) < 2 - 0" by simp
  with cnt have c0: "nodes_at (8 ^ 2) 8 (0 + 1) 0 = 8 ^ (2 - (0 + 1 + 0))" by blast
  have len: "Suc 0 < length (layer_offsets T)" by (simp add: T_def)
  with step tT have
    "layer_offsets T ! Suc 0 = layer_offsets T ! 0 + nodes_at (8 ^ 2) 8 (0 + 1) 0 * node_size T"
    by blast
  then have s0: "[0::nat, 256] ! Suc 0 = [0, 256] ! 0 + nodes_at (8 ^ 2) 8 (0 + 1) 0 * 32"
    by (simp add: T_def)
  have l2: "Suc 0 < length [0::nat, 256]" by simp
  from ds tT have "data_size T = 32 * (\<Sum>j = 0 + 1..2. 8 ^ (2 - j))" by simp
  with h T c0 s0 l2 \<open>(0::nat) < 2 - 0\<close> show ?thesis
    unfolding T_def by blast
qed


section \<open>Facts about the engine constructor\<close>

lemma offset_table_loop_spec:
  assumes ar: "2 \<le> A"
  shows "\<exists>ys. offset_table_loop A tbl x = Some (tbl @ ys)
           \<and> (\<forall>L < length ys. ys ! L = x div A ^ L \<and> A \<le> x div A ^ L)
           \<and> x div A ^ length ys < A"
proof (induction x arbitrary: tbl rule: less_induct)
  case (less x)
  show ?case
  proof (cases "A \<le> x")
    case False
    then have "offset_table_loop A tbl x = Some tbl"
      by (subst offset_table_loop.simps) simp
    with False show ?thesis by simp
  next
    case True
    with ar have "x div A < x" by simp
    from less.IH [OF this, of "tbl @ [x]"]
    obtain ys where run: "offset_table_loop A (tbl @ [x]) (x div A) = Some ((tbl @ [x]) @ ys)"
      and vals: "\<And>L. L < length ys \<Longrightarrow> ys ! L = x div A div A ^ L \<and> A \<le> x div A div A ^ L"
      and stop: "x div A div A ^ length ys < A"
      by blast
    let ?zs = "x # ys"
    have "offset_table_loop A tbl x = Some (tbl @ ?zs)"
      using True run by (subst offset_table_loop.simps) simp
    moreover have "\<forall>L < length ?zs. ?zs ! L = x div A ^ L \<and> A \<le> x div A ^ L"
    proof (intro allI impI)
      fix L
      assume L: "L < length ?zs"
      show "?zs ! L = x div A ^ L \<and> A \<le> x div A ^ L"
      proof (cases L)
        case 0
        with True show ?thesis by simp
      next
        case (Suc M)
        with L have "M < length ys" by simp
        from vals [OF this] Suc show ?thesis by (simp add: div_mult2_eq)
      qed
    qed
    moreover from stop have "x div A ^ length ?zs < A" by (simp add: div_mult2_eq)
    ultimately show ?thesis by blast
  qed
qed


lemma pc2_t_tables:
  assumes e: "pc2_t C ps tro ntr B K = Some e"
  shows "offset_table_loop (TREE_ARITY C) [] (ntr div K) = Some (layer_offsets_c e) \<and>
         offset_table_loop (TREE_ARITY C) []
           (skip_layers (TREE_ARITY C) (GetNumTreeRDiscardRows ps + 1) (ntr div K))
           = Some (layer_offsets_r e) \<and> TREE_ARITY C \<noteq> 0"
  using e
  by (auto simp: pc2_t_def tree_address_t_def Option.bind_eq_Some_conv split: if_splits)


text \<open>
  Claim C2, as amended. In an engine the constructor has returned (arity at least 2), every
  entry of the two offset tables is the number of nodes per stream divided by a power of
  the arity whose exponent is the table index itself:
  \<open>layer_offsets_c[L] = nodes_per_stream / A ^ L\<close> and
  \<open>layer_offsets_r[L] = (nodes_per_stream / A ^ (D + 1)) / A ^ L\<close>, where
  \<open>nodes_per_stream = nodes_to_read / stream_count\<close>.
\<close>

theorem layer_offset_tables:
  assumes e: "pc2_t C ps tro ntr B K = Some e" and ar: "2 \<le> TREE_ARITY C"
  shows "(\<forall>L < length (layer_offsets_c e).
            layer_offsets_c e ! L = (ntr div K) div TREE_ARITY C ^ L) \<and>
         (\<forall>L < length (layer_offsets_r e).
            layer_offsets_r e ! L
              = (ntr div K) div TREE_ARITY C ^ (GetNumTreeRDiscardRows ps + 1)
                  div TREE_ARITY C ^ L)"
proof -
  let ?A = "TREE_ARITY C"
  let ?x = "ntr div K"
  let ?y = "skip_layers ?A (GetNumTreeRDiscardRows ps + 1) ?x"
  from pc2_t_tables [OF e]
  have c: "offset_table_loop ?A [] ?x = Some (layer_offsets_c e)"
    and r: "offset_table_loop ?A [] ?y = Some (layer_offsets_r e)"
    by simp_all
  from offset_table_loop_spec [OF ar, of "[]" ?x] c
  have "\<forall>L < length (layer_offsets_c e). layer_offsets_c e ! L = ?x div ?A ^ L"
    by auto
  moreover from offset_table_loop_spec [OF ar, of "[]" ?y] r
  have "\<forall>L < length (layer_offsets_r e). layer_offsets_r e ! L = ?y div ?A ^ L"
    by auto
  ultimately show ?thesis by (simp only: skip_layers_div) 
qed

text \<open>
  Claim C2 as stated has the exponent \<open>L + 1\<close>. With 512 nodes, arity 8, one stream and
  no discarded rows the constructor builds the tables \<open>[512, 64, 8]\<close> and \<open>[64, 8]\<close>, whose
  entries at index 0 are not \<open>512 / 8\<close> and \<open>(512 / 8) / 8\<close>.
\<close>

theorem layer_offset_tables_claimed_counterexample:
  "map_option layer_offsets_c
     (pc2_t \<lparr>PARALLEL_SECTORS = 2, TREE_ARITY = 8, NODE_SIZE = 32, sizeof_fr_t = 32,
              disk_io_batch_size = 2, num_host_batches = 1, num_host_empty_batches = 1\<rparr>
            \<lparr>GetNumNodes = 512, GetNumTreeRCFiles = 1, GetNumTreeRCArity = 8,
              GetNumTreeRDiscardRows = 0, GetNumLayers = 11\<rparr>
            False 512 512 1) = Some [512, 64, 8] \<and>
   map_option layer_offsets_r
     (pc2_t \<lparr>PARALLEL_SECTORS = 2, TREE_ARITY = 8, NODE_SIZE = 32, sizeof_fr_t = 32,
              disk_io_batch_size = 2, num_host_batches = 1, num_host_empty_batches = 1\<rparr>
            \<lparr>GetNumNodes = 512, GetNumTreeRCFiles = 1, GetNumTreeRCArity = 8,
              GetNumTreeRDiscardRows = 0, GetNumLayers = 11\<rparr>
            False 512 512 1) = Some [64, 8] \<and>
   (0::nat) < length [512::nat, 64, 8] \<and>
   [512::nat, 64, 8] ! 0 \<noteq> (512 div 1) div 8 ^ (0 + 1) \<and>
   (0::nat) < length [64::nat, 8] \<and>
   [64::nat, 8] ! 0 \<noteq> (512 div 1) div 8 ^ (0 + 1) div 8 ^ (0 + 1)"
  by (simp add: pc2_t_def tree_address_t_def layer_loop.simps size_t_def offset_table_loop.simps)


theorem layer_offset_tables_witness:
  "\<exists>e. pc2_t \<lparr>PARALLEL_SECTORS = 2, TREE_ARITY = 8, NODE_SIZE = 32, sizeof_fr_t = 32,
                disk_io_batch_size = 2, num_host_batches = 1, num_host_empty_batches = 1\<rparr>
              \<lparr>GetNumNodes = 512, GetNumTreeRCFiles = 1, GetNumTreeRCArity = 8,
                GetNumTreeRDiscardRows = 0, GetNumLayers = 11\<rparr>
              False 512 512 1 = Some e \<and>
        2 \<le> (8::nat) \<and>
        layer_offsets_c e = [512, 64, 8] \<and> layer_offsets_r e = [64, 8] \<and>
        1 < length (layer_offsets_c e) \<and> layer_offsets_c e ! 1 = (512 div 1) div 8 ^ 1 \<and>
        1 < length (layer_offsets_r e) \<and>
        layer_offsets_r e ! 1 = (512 div 1) div 8 ^ (0 + 1) div 8 ^ 1"
proof -
  define C where "C = \<lparr>PARALLEL_SECTORS = 2, TREE_ARITY = 8, NODE_SIZE = 32, sizeof_fr_t = 32,
                disk_io_batch_size = 2, num_host_batches = 1, num_host_empty_batches = 1\<rparr>"
  define ps where "ps = \<lparr>GetNumNodes = 512, GetNumTreeRCFiles = 1, GetNumTreeRCArity = 8,
                GetNumTreeRDiscardRows = 0, GetNumLayers = 11\<rparr>"
  have "\<exists>e. pc2_t C ps False 512 512 1 = Some e \<and>
             layer_offsets_c e = [512, 64, 8] \<and> layer_offsets_r e = [64, 8]"
    by (simp add: C_def ps_def pc2_t_def tree_address_t_def layer_loop.simps size_t_def
          offset_table_loop.simps)
  then obtain e where e: "pc2_t C ps False 512 512 1 = Some e"
    and c: "layer_offsets_c e = [512, 64, 8]" and r: "layer_offsets_r e = [64, 8]"
    by blast
  have ar: "2 \<le> TREE_ARITY C" by (simp add: C_def)
  have D: "GetNumTreeRDiscardRows ps = 0" and A: "TREE_ARITY C = 8"
    by (simp_all add: ps_def C_def)
  have lc: "1 < length (layer_offsets_c e)" and lr: "1 < length (layer_offsets_r e)"
    by (simp_all add: c r)
  from layer_offset_tables [OF e ar]
  have tc: "\<forall>L < length (layer_offsets_c e).
              layer_offsets_c e ! L = (512 div 1) div TREE_ARITY C ^ L"
    and tr: "\<forall>L < length (layer_offsets_r e).
              layer_offsets_r e ! L
                = (512 div 1) div TREE_ARITY C ^ (GetNumTreeRDiscardRows ps + 1)
                    div TREE_ARITY C ^ L"
    by simp_all
  from tc lc have vc: "layer_offsets_c e ! 1 = (512 div 1) div 8 ^ 1"
    unfolding A by (elim allE [of _ 1] impE) assumption+
  from tr lr have vr: "layer_offsets_r e ! 1 = (512 div 1) div 8 ^ (0 + 1) div 8 ^ 1"
    unfolding A D by (elim allE [of _ 1] impE) assumption+
  have "2 \<le> (8::nat)" by simp
  with e c r lc lr vc vr
  have "\<exists>e. pc2_t C ps False 512 512 1 = Some e \<and>
        2 \<le> (8::nat) \<and>
        layer_offsets_c e = [512, 64, 8] \<and> layer_offsets_r e = [64, 8] \<and>
        1 < length (layer_offsets_c e) \<and> layer_offsets_c e ! 1 = (512 div 1) div 8 ^ 1 \<and>
        1 < length (layer_offsets_r e) \<and>
        layer_offsets_r e ! 1 = (512 div 1) div 8 ^ (0 + 1) div 8 ^ 1"
    by (intro exI [of _ e] conjI)
  then show ?thesis unfolding C_def ps_def .
qed


section \<open>Facts about the batcher\<close>

lemma size_t_sub_le [simp]: "b \<le> a \<Longrightarrow> size_t_sub a b = a - b"
  by (simp add: size_t_sub_def)

lemma enqueue_returns:
  assumes b: "bundle_batch st \<noteq> None \<longrightarrow>
                is_batch BS st (bundle_batch st) \<and> idx_bundle st < BS"
    and n: "bundle_batch st = None \<longrightarrow>
                idx_bundle st = 0 \<and> 0 < BS \<and> pool_empty st \<noteq> [] \<and>
                is_batch BS st (hd (pool_empty st))"
  shows "\<exists>st'. enqueue BS st x = Inr st'"
proof (cases "bundle_batch st")
  case None
  with n obtain p ps where pe: "pool_empty st = p # ps" and "is_batch BS st p"
    and "idx_bundle st = 0" "0 < BS"
    by (cases "pool_empty st") auto
  then show ?thesis using None
    by (auto simp: enqueue_def fifo_dequeue_def is_batch_def Let_def split: option.splits)
next
  case (Some q)
  with b show ?thesis
    by (auto simp: enqueue_def is_batch_def Let_def split: option.splits)
qed

lemma dequeue_returns:
  assumes inv: "batcher_inv BS st" and sz: "1 \<le> size_batcher BS st"
  shows "\<exists>buf st'. dequeue BS st = Inr (Some buf, st') \<and>
           bundle_batch st' = bundle_batch st \<and> idx_bundle st' = idx_bundle st \<and>
           batches st' = batches st \<and> (\<exists>xs. pool_empty st' = pool_empty st @ xs)"
proof (cases "unbundle_batch st")
  case (Some u)
  with inv have u: "u < length (batches st)" "length (batches st ! u) = BS"
    and i: "idx_unbundle st < BS"
    and h: "list_all (\<lambda>x. x \<noteq> None) (drop (idx_unbundle st) (batches st ! u))"
    by (simp_all add: batcher_inv_def is_batch_def holds_bufs_def)
  from i u have "drop (idx_unbundle st) (batches st ! u)
                   = batches st ! u ! idx_unbundle st # drop (Suc (idx_unbundle st)) (batches st ! u)"
    by (simp add: Cons_nth_drop_Suc)
  with h have "batches st ! u ! idx_unbundle st \<noteq> None" by simp
  then obtain buf where "batches st ! u ! idx_unbundle st = Some buf" by blast
  with Some u i show ?thesis
    by (auto simp: dequeue_def batch_at_def Let_def fifo_enqueue_def)
next
  case None
  with sz have "1 \<le> length (pool_full st) * BS" by (simp add: size_batcher_def)
  then have BS: "0 < BS" and "pool_full st \<noteq> []" by (cases BS; auto)+
  then obtain p ps where pf: "pool_full st = p # ps" by (cases "pool_full st") auto
  with inv obtain u where p: "p = Some u" and u: "u < length (batches st)"
    "length (batches st ! u) = BS"
    and h: "list_all (\<lambda>x. x \<noteq> None) (batches st ! u)"
    by (auto simp: batcher_inv_def is_batch_def holds_bufs_def split: option.splits)
  from inv None have i0: "idx_unbundle st = 0" by (simp add: batcher_inv_def)
  from u BS h have "batches st ! u ! 0 \<noteq> None"
    by (cases "batches st ! u") auto
  then obtain buf where "batches st ! u ! 0 = Some buf" by blast
  with None pf p u BS i0 show ?thesis
    by (auto simp: dequeue_def batch_at_def Let_def fifo_dequeue_def fifo_enqueue_def)
qed

lemma size_batcher_min:
  assumes inv: "batcher_inv BS st"
  shows "size_batcher BS st =
           min ((case unbundle_batch st of None \<Rightarrow> 0 | Some u \<Rightarrow> BS - idx_unbundle st)
                  + BS * length (pool_full st))
               ((case bundle_batch st of None \<Rightarrow> 0 | Some b \<Rightarrow> BS - idx_bundle st)
                  + BS * length (pool_empty st))"
proof -
  from inv have "unbundle_batch st \<noteq> None \<longrightarrow> idx_unbundle st \<le> BS"
    and "bundle_batch st \<noteq> None \<longrightarrow> idx_bundle st \<le> BS"
    by (auto simp: batcher_inv_def)
  then show ?thesis
    by (auto simp: size_batcher_def mult.commute split: option.splits)
qed

lemma is_batch_same_batches:
  "batches st' = batches st \<Longrightarrow> is_batch BS st' p = is_batch BS st p"
  by (cases p) (simp_all add: is_batch_def)

lemma enqueue_after_size:
  assumes inv: "batcher_inv BS st" and sz: "1 \<le> size_batcher BS st"
    and same: "bundle_batch st' = bundle_batch st" "idx_bundle st' = idx_bundle st"
      "batches st' = batches st" "pool_empty st' = pool_empty st @ xs"
  shows "\<exists>st''. enqueue BS st' x = Inr st''"
proof (rule enqueue_returns)
  from inv same show "bundle_batch st' \<noteq> None \<longrightarrow>
                        is_batch BS st' (bundle_batch st') \<and> idx_bundle st' < BS"
    by (simp add: batcher_inv_def is_batch_same_batches [OF same(3)])
next
  show "bundle_batch st' = None \<longrightarrow>
          idx_bundle st' = 0 \<and> 0 < BS \<and> pool_empty st' \<noteq> [] \<and>
          is_batch BS st' (hd (pool_empty st'))"
  proof
    assume "bundle_batch st' = None"
    with same have none: "bundle_batch st = None" by simp
    with sz have "1 \<le> length (pool_empty st) * BS" by (simp add: size_batcher_def)
    then have BS: "0 < BS" and ne: "pool_empty st \<noteq> []" by (cases BS; auto)+
    then obtain p ps where pe: "pool_empty st = p # ps" by (cases "pool_empty st") auto
    with inv have "is_batch BS st p" by (simp add: batcher_inv_def)
    with same pe have "is_batch BS st' (hd (pool_empty st'))"
      by (simp add: is_batch_same_batches [OF same(3)])
    moreover from inv none same have "idx_bundle st' = 0" by (simp add: batcher_inv_def)
    moreover from same pe have "pool_empty st' \<noteq> []" by simp
    ultimately show "idx_bundle st' = 0 \<and> 0 < BS \<and> pool_empty st' \<noteq> [] \<and>
                     is_batch BS st' (hd (pool_empty st'))"
      using BS by simp
  qed
qed

text \<open>
  In every state that satisfies the invariant of the batcher, \<open>size()\<close> is the
  minimum of the slots that hold a buffer to hand out (the rest of the \<open>unbundle\<close> batch
  plus \<open>BATCH_SIZE\<close> for every batch in \<open>pool_full\<close>) and the empty slots that can take
  a buffer (the rest of the \<open>bundle\<close> batch plus \<open>BATCH_SIZE\<close> for every batch in
  \<open>pool_empty\<close>). When \<open>size()\<close> is at least 1, the next \<open>dequeue()\<close> returns a buffer
  that is not null, and \<open>enqueue\<close> succeeds both right away and after that \<open>dequeue()\<close>.
\<close>

lemma size_batcher_under_inv:
  assumes inv: "batcher_inv BS st"
  shows "size_batcher BS st =
           min ((case unbundle_batch st of None \<Rightarrow> 0 | Some u \<Rightarrow> BS - idx_unbundle st)
                  + BS * length (pool_full st))
               ((case bundle_batch st of None \<Rightarrow> 0 | Some b \<Rightarrow> BS - idx_bundle st)
                  + BS * length (pool_empty st)) \<and>
         (1 \<le> size_batcher BS st \<longrightarrow>
            (\<exists>buf st'. dequeue BS st = Inr (Some buf, st') \<and>
                       (\<forall>x. \<exists>st''. enqueue BS st' x = Inr st'')) \<and>
            (\<forall>x. \<exists>st''. enqueue BS st x = Inr st''))"
proof (intro conjI impI)
  show "size_batcher BS st =
           min ((case unbundle_batch st of None \<Rightarrow> 0 | Some u \<Rightarrow> BS - idx_unbundle st)
                  + BS * length (pool_full st))
               ((case bundle_batch st of None \<Rightarrow> 0 | Some b \<Rightarrow> BS - idx_bundle st)
                  + BS * length (pool_empty st))"
    by (rule size_batcher_min [OF inv])
next
  assume sz: "1 \<le> size_batcher BS st"
  from dequeue_returns [OF inv sz]
  obtain buf st' xs where d: "dequeue BS st = Inr (Some buf, st')"
    and same: "bundle_batch st' = bundle_batch st" "idx_bundle st' = idx_bundle st"
      "batches st' = batches st" "pool_empty st' = pool_empty st @ xs"
    by blast
  have "\<forall>x. \<exists>st''. enqueue BS st' x = Inr st''"
    using enqueue_after_size [OF inv sz same] by blast
  with d show "\<exists>buf st'. dequeue BS st = Inr (Some buf, st') \<and>
                 (\<forall>x. \<exists>st''. enqueue BS st' x = Inr st'')"
    by blast
next
  assume sz: "1 \<le> size_batcher BS st"
  show "\<forall>x. \<exists>st''. enqueue BS st x = Inr st''"
    using enqueue_after_size [OF inv sz, of st "[]"] by simp
qed


text \<open>
  The constructor, called on the queues of an engine, establishes the invariant.
  \<open>flush\<close> on an untouched pair of batches does not keep it, as shown below.
\<close>

lemma pc2_t_pools:
  assumes e: "pc2_t C ps tro ntr B K = Some e"
  shows "host_batches e = initial_host_batches C \<and>
         host_buf_pool_full e = map Some [0 ..< num_host_batches C] \<and>
         host_buf_pool_empty e
           = map (\<lambda>i. Some (i + num_host_batches C)) [0 ..< num_host_empty_batches C]"
  using e
  by (auto simp: pc2_t_def Option.bind_eq_Some_conv split: if_splits)

lemma pc2_batcher_t_inv:
  assumes e: "pc2_t C ps tro ntr B K = Some e" and st: "pc2_batcher_t e = Inr st"
    and bs: "0 < disk_io_batch_size C"
  shows "batcher_inv (disk_io_batch_size C) st"
proof -
  let ?BS = "disk_io_batch_size C" and ?n = "num_host_batches C"
    and ?m = "num_host_empty_batches C"
  from pc2_t_pools [OF e]
  have hb: "host_batches e = initial_host_batches C"
    and pf: "host_buf_pool_full e = map Some [0 ..< ?n]"
    and pe: "host_buf_pool_empty e = map (\<lambda>i. Some (i + ?n)) [0 ..< ?m]"
    by simp_all
  from st pf have n: "0 < ?n"
    by (cases "?n") (simp_all add: pc2_batcher_t_def fifo_dequeue_def)
  from st pf pe n have m: "0 < ?m"
    by (cases "?m") (simp_all add: pc2_batcher_t_def fifo_dequeue_def upt_conv_Cons)
  from n have un: "[0 ..< ?n] = 0 # [1 ..< ?n]" by (simp add: upt_conv_Cons)
  from m have um: "[0 ..< ?m] = 0 # [1 ..< ?m]" by (simp add: upt_conv_Cons)
  from st have
    u: "unbundle_batch st = Some 0" and b: "bundle_batch st = Some ?n"
    and f: "pool_full st = map Some [1 ..< ?n]"
    and em: "pool_empty st = map (\<lambda>i. Some (i + ?n)) [1 ..< ?m]"
    and iu: "idx_unbundle st = 0" and ib: "idx_bundle st = 0"
    and bt: "batches st = initial_host_batches C"
    by (auto simp: pc2_batcher_t_def fifo_dequeue_def pf pe un um hb)
  have len: "length (initial_host_batches C) = ?n + ?m"
    by (simp add: initial_host_batches_def)
  have full: "initial_host_batches C ! q
                = map (\<lambda>j. Some (q * ?BS + j)) [0 ..< ?BS]" if "q < ?n" for q
    using that by (simp add: initial_host_batches_def nth_append)
  have empty: "initial_host_batches C ! (i + ?n) = replicate ?BS None" if "i < ?m" for i
    using that by (simp add: initial_host_batches_def nth_append)
  have fb: "is_batch ?BS st (Some q) \<and> holds_bufs st (Some q) 0" if "q < ?n" for q
    using that by (simp add: is_batch_def holds_bufs_def bt len full list_all_iff)
  have eb: "is_batch ?BS st (Some (i + ?n))" if "i < ?m" for i
    using that by (simp add: is_batch_def bt len empty)
  from fb [OF n] eb [OF m] bs show ?thesis
    by (auto simp: batcher_inv_def u b f em iu ib list_all_iff fb eb)
qed

lemmas engine_eval =
  pc2_t_def tree_address_t_def layer_loop.simps size_t_def offset_table_loop.simps
  initial_host_bufs_def initial_host_batches_def upt_conv_Cons
  pc2_batcher_t_def fifo_dequeue_def fifo_enqueue_def

text \<open>
  Claim C4 against the code. A batcher is constructed on an engine with one full and one
  empty batch of two buffers and flushed at once, as in the destructor. \<open>flush\<close> hands
  the empty \<open>bundle\<close> batch 1 to \<open>pool_full\<close> (it passes \<open>bundle\<close> to
  \<open>pool_full.enqueue\<close> where the \<open>unbundle\<close> batch was to be returned), so \<open>size()\<close>
  counts the two null entries of that batch as slots that hold data and answers 2, the
  minimum of 2 and 2. The next \<open>dequeue()\<close> takes batch 1 from \<open>pool_full\<close> and returns
  its entry 0, the null pointer.
\<close>

theorem size_after_flush_dequeue_null:
  "(case pc2_t \<lparr>PARALLEL_SECTORS = 2, TREE_ARITY = 8, NODE_SIZE = 32, sizeof_fr_t = 32,
                disk_io_batch_size = 2, num_host_batches = 1, num_host_empty_batches = 1\<rparr>
              \<lparr>GetNumNodes = 512, GetNumTreeRCFiles = 1, GetNumTreeRCArity = 8,
                GetNumTreeRDiscardRows = 0, GetNumLayers = 11\<rparr>
              False 512 512 1 of
      None \<Rightarrow> False
    | Some e \<Rightarrow>
       (case pc2_batcher_t e of
          Inl f \<Rightarrow> False
        | Inr st \<Rightarrow>
           batches st = [[Some 0, Some 1], [None, None]] \<and>
           size_batcher 2 st = 2 \<and>
           (case flush 2 st of
              Inl f \<Rightarrow> False
            | Inr st' \<Rightarrow>
               unbundle_batch st' = None \<and> idx_unbundle st' = 0 \<and>
               pool_full st' = [Some 1] \<and> pool_empty st' = [Some 1] \<and>
               batches st' = [[Some 0, Some 1], [None, None]] \<and>
               size_batcher 2 st' = 2 \<and>
               (case dequeue 2 st' of
                  Inl f \<Rightarrow> False
                | Inr (buf, st'') \<Rightarrow>
                   buf = None \<and> unbundle_batch st'' = Some 1 \<and> idx_unbundle st'' = 1))))"
proof -
  have r: "replicate 2 (None :: nat option) = [None, None]"
    by (simp add: numeral_2_eq_2)
  show ?thesis
    by (simp add: engine_eval flush_def dequeue_def batch_at_def size_batcher_def Let_def r)
qed

text \<open>
  Claim C3 against the code. A batcher is constructed on an engine with one full and one
  empty batch of two buffers and flushed at once, with both held batches untouched.
  Before the flush each of the two batches occurs once (held by the batcher). After it
  the \<open>bundle\<close> batch 1 is in \<open>pool_empty\<close> and in \<open>pool_full\<close>, and the \<open>unbundle\<close>
  batch 0 is in no queue and in no hand: \<open>flush\<close> passes \<open>bundle\<close> to
  \<open>pool_full.enqueue\<close> where the \<open>unbundle\<close> batch was to be returned.
\<close>

theorem flush_untouched_duplicates_bundle:
  "(case pc2_t \<lparr>PARALLEL_SECTORS = 2, TREE_ARITY = 8, NODE_SIZE = 32, sizeof_fr_t = 32,
                disk_io_batch_size = 2, num_host_batches = 1, num_host_empty_batches = 1\<rparr>
              \<lparr>GetNumNodes = 512, GetNumTreeRCFiles = 1, GetNumTreeRCArity = 8,
                GetNumTreeRDiscardRows = 0, GetNumLayers = 11\<rparr>
              False 512 512 1 of
      None \<Rightarrow> False
    | Some e \<Rightarrow>
       (case pc2_batcher_t e of
          Inl f \<Rightarrow> False
        | Inr st \<Rightarrow>
           unbundle_batch st = Some 0 \<and> bundle_batch st = Some 1 \<and>
           idx_unbundle st = 0 \<and> idx_bundle st = 0 \<and>
           occurrences st 0 = 1 \<and> occurrences st 1 = 1 \<and>
           (case flush 2 st of
              Inl f \<Rightarrow> False
            | Inr st' \<Rightarrow>
               pool_full st' = [Some 1] \<and> pool_empty st' = [Some 1] \<and> to_disk st' = [] \<and>
               unbundle_batch st' = None \<and> bundle_batch st' = None \<and>
               occurrences st' 0 = 0 \<and> occurrences st' 1 = 2)))"
  by (simp add: engine_eval flush_def occurrences_def Let_def)

text \<open>
  Claim C9 against the code. With batches of four buffers, one \<open>dequeue\<close> and one
  \<open>enqueue\<close> leave \<open>idx_bundle = idx_unbundle = 1\<close>. The padding loop of \<open>flush\<close> then
  advances \<open>idx_unbundle\<close> by two in every round and reads \<open>unbundle->batch[5]\<close> in its
  third round, outside the array of four entries.
\<close>

theorem flush_partial_out_of_bounds:
  "(case pc2_t \<lparr>PARALLEL_SECTORS = 2, TREE_ARITY = 8, NODE_SIZE = 32, sizeof_fr_t = 32,
                disk_io_batch_size = 4, num_host_batches = 1, num_host_empty_batches = 1\<rparr>
              \<lparr>GetNumNodes = 512, GetNumTreeRCFiles = 1, GetNumTreeRCArity = 8,
                GetNumTreeRDiscardRows = 0, GetNumLayers = 11\<rparr>
              False 512 512 1 of
      None \<Rightarrow> False
    | Some e \<Rightarrow>
       (case pc2_batcher_t e of
          Inl f \<Rightarrow> False
        | Inr st0 \<Rightarrow>
           (case dequeue 4 st0 of
              Inl f \<Rightarrow> False
            | Inr (buf, st1) \<Rightarrow>
               buf = Some 0 \<and>
               (case enqueue 4 st1 buf of
                  Inl f \<Rightarrow> False
                | Inr st2 \<Rightarrow>
                   idx_unbundle st2 = 1 \<and> idx_bundle st2 = 1 \<and>
                   flush 4 st2 = Inl Out_of_bounds))))"
  by (simp add: engine_eval dequeue_def enqueue_def batch_at_def flush_def flush_step_def
        flush_loop.simps Let_def)


lemma flush_result_idle:
  assumes "flush BS st = Inr st'"
  shows "bundle_batch st' = None \<and> unbundle_batch st' = None \<and>
         idx_unbundle st' = 0 \<and> idx_bundle st' = 0"
  using assms by (auto simp: flush_def Let_def split: if_splits sum.splits)

lemma flush_twice:
  assumes "flush BS st = Inr st'"
  shows "flush BS st' = Inr st'"
proof -
  from flush_result_idle [OF assms]
  have "bundle_batch st' = None" "unbundle_batch st' = None"
    "idx_unbundle st' = 0" "idx_bundle st' = 0"
    by simp_all
  then show ?thesis by (simp add: flush_def)
qed


section \<open>Facts about the disk writes\<close>

lemma gather_in_bounds:
  assumes "\<forall>j \<in> set js. j < length staging \<and> s + j * stride b < length storage"
  shows "\<exists>r. gather rl storage b s js staging = Inr r \<and> length r = length staging"
  using assms
proof (induction js arbitrary: staging)
  case Nil
  then show ?case by simp
next
  case (Cons j js)
  let ?st = "staging[j := (if reverse b then rl (storage ! (s + j * stride b))
                           else storage ! (s + j * stride b))]"
  from Cons.prems have "\<forall>k \<in> set js. k < length ?st \<and> s + k * stride b < length storage"
    by simp
  from Cons.IH [OF this] Cons.prems show ?case by simp
qed

lemma engine_strided_is_sealed:
  assumes p: "engine_produces C e b" and sz: "size_b b \<noteq> 0" and st: "stride b \<noteq> 1"
  shows "size_b b = batch_size e \<and> stride b = PARALLEL_SECTORS C"
  using p
proof cases
  case (sealed start_node b0)
  then show ?thesis by (simp add: data_wait_to_disk_def)
next
  case (column part_idx resource_num work_idx b0)
  with st show ?thesis
    by (auto simp: hash_column_to_disk_def Let_def split: if_splits option.splits)
next
  case (tree_c part_idx resource_num work_idx b0)
  with st show ?thesis
    by (auto simp: tree_c_to_disk_def Let_def split: if_splits option.splits)
next
  case (tree_r part_idx resource_num work_idx b0)
  with st show ?thesis
    by (auto simp: tree_r_to_disk_def Let_def split: if_splits option.splits)
next
  case padding
  with sz show ?thesis by simp
qed

text \<open>
  Claim C10. \<open>hash_gpu\<close> starts every disk writer with \<open>max_write_size = batch_size\<close>.
  For every buffer the engine produces that takes the strided branch (its size is not 0
  and its stride is not 1), the size is at most \<open>batch_size\<close>, the assertion of the
  branch (\<open>max_write_size <= size\<close>) holds as well, and the gather loop over
  \<open>j < size\<close> stays inside a staging array of \<open>batch_size\<close> elements: it returns, with
  the array at its length, whenever its reads of \<open>host_buf_storage\<close> are in range.
\<close>

theorem strided_staging_in_bounds:
  assumes p: "engine_produces C e b" and sz: "size_b b \<noteq> 0" and st: "stride b \<noteq> 1"
  shows "size_b b \<le> batch_size e \<and> batch_size e \<le> size_b b \<and>
         (\<forall>staging storage s (rl :: 'fr \<Rightarrow> 'fr).
            length staging = batch_size e \<and>
            (\<forall>j < size_b b. s + j * stride b < length storage) \<longrightarrow>
            (\<exists>r. gather rl storage b s [0 ..< size_b b] staging = Inr r \<and>
                 length r = batch_size e))"
proof -
  from engine_strided_is_sealed [OF p sz st] have eq: "size_b b = batch_size e" by simp
  have "\<exists>r. gather rl storage b s [0 ..< size_b b] staging = Inr r \<and> length r = batch_size e"
    if "length staging = batch_size e" "\<forall>j < size_b b. s + j * stride b < length storage"
    for staging storage s and rl :: "'fr \<Rightarrow> 'fr"
  proof -
    from that eq
    have "\<forall>j \<in> set [0 ..< size_b b]. j < length staging \<and> s + j * stride b < length storage"
      by simp
    from gather_in_bounds [OF this, of rl] that(1) show ?thesis by simp
  qed
  with eq show ?thesis by simp
qed


theorem strided_staging_in_bounds_witness:
  "\<exists>e b. pc2_t \<lparr>PARALLEL_SECTORS = 2, TREE_ARITY = 8, NODE_SIZE = 32, sizeof_fr_t = 32,
                  disk_io_batch_size = 2, num_host_batches = 1, num_host_empty_batches = 1\<rparr>
                \<lparr>GetNumNodes = 512, GetNumTreeRCFiles = 1, GetNumTreeRCArity = 8,
                  GetNumTreeRDiscardRows = 0, GetNumLayers = 11\<rparr>
                False 512 512 1 = Some e \<and>
          engine_produces
                \<lparr>PARALLEL_SECTORS = 2, TREE_ARITY = 8, NODE_SIZE = 32, sizeof_fr_t = 32,
                  disk_io_batch_size = 2, num_host_batches = 1, num_host_empty_batches = 1\<rparr>
                e b \<and>
          size_b b \<noteq> 0 \<and> stride b \<noteq> 1 \<and> size_b b \<le> batch_size e \<and>
          length (replicate 512 (0::nat)) = batch_size e \<and>
          (\<forall>j < size_b b. 0 + j * stride b < length (replicate 1024 (0::nat))) \<and>
          (\<exists>r. gather id (replicate 1024 (0::nat)) b 0 [0 ..< size_b b] (replicate 512 0)
                 = Inr r)"
proof -
  define C where "C = \<lparr>PARALLEL_SECTORS = 2, TREE_ARITY = 8, NODE_SIZE = 32, sizeof_fr_t = 32,
                  disk_io_batch_size = 2, num_host_batches = 1, num_host_empty_batches = 1\<rparr>"
  define ps where "ps = \<lparr>GetNumNodes = 512, GetNumTreeRCFiles = 1, GetNumTreeRCArity = 8,
                  GetNumTreeRDiscardRows = 0, GetNumLayers = 11\<rparr>"
  have "\<exists>e. pc2_t C ps False 512 512 1 = Some e \<and> batch_size e = 512"
    by (simp add: C_def ps_def pc2_t_def tree_address_t_def layer_loop.simps size_t_def
          offset_table_loop.simps)
  then obtain e where e: "pc2_t C ps False 512 512 1 = Some e" and B: "batch_size e = 512"
    by blast
  define b where "b = data_wait_to_disk C e 0
     \<lparr>data = 0, src = [None, None], dst = [None, None], offset = 0, size_b = 0,
      stride = 0, reverse = False\<rparr>"
  have S: "PARALLEL_SECTORS C = 2" by (simp add: C_def)
  have p: "engine_produces C e b" unfolding b_def by (rule engine_produces.sealed)
  have sz: "size_b b \<noteq> 0" and st: "stride b \<noteq> 1"
    and szv: "size_b b = 512" and stv: "stride b = 2"
    by (simp_all add: b_def data_wait_to_disk_def B S)
  have len: "length (replicate 512 (0::nat)) = batch_size e" by (simp add: B)
  have rd: "\<forall>j < size_b b. 0 + j * stride b < length (replicate 1024 (0::nat))"
    by (simp add: szv stv)
  from strided_staging_in_bounds [OF p sz st]
  have le: "size_b b \<le> batch_size e"
    and g: "\<forall>staging storage s (rl :: nat \<Rightarrow> nat).
              length staging = batch_size e \<and>
              (\<forall>j < size_b b. s + j * stride b < length storage) \<longrightarrow>
              (\<exists>r. gather rl storage b s [0 ..< size_b b] staging = Inr r \<and>
                   length r = batch_size e)"
    by blast+
  from g len rd
  have "\<exists>r. gather id (replicate 1024 (0::nat)) b 0 [0 ..< size_b b] (replicate 512 0) = Inr r"
    by blast
  with e p sz st le len rd
  have "\<exists>e b. pc2_t C ps False 512 512 1 = Some e \<and> engine_produces C e b \<and>
          size_b b \<noteq> 0 \<and> stride b \<noteq> 1 \<and> size_b b \<le> batch_size e \<and>
          length (replicate 512 (0::nat)) = batch_size e \<and>
          (\<forall>j < size_b b. 0 + j * stride b < length (replicate 1024 (0::nat))) \<and>
          (\<exists>r. gather id (replicate 1024 (0::nat)) b 0 [0 ..< size_b b] (replicate 512 0)
                 = Inr r)"
    by (intro exI [of _ e] exI [of _ b] conjI)
  then show ?thesis unfolding C_def ps_def .
qed

lemma process_elmt_zero_size:
  "size_b b = 0 \<Longrightarrow> process_elmt C mws rl storage (Some b) staging = Inr ([], staging)"
  by (simp add: process_elmt_def)


section \<open>Facts about the roots file\<close>

lemma filter_concat_by_file:
  assumes own: "\<And>i w. w \<in> set (f i) \<Longrightarrow> w_file w = P_aux i"
    and d: "distinct xs"
  shows "filter (\<lambda>w. w_file w = P_aux s) (concat (map f xs)) = (if s \<in> set xs then f s else [])"
  using d
proof (induction xs)
  case Nil
  then show ?case by simp
next
  case (Cons x xs)
  have same: "filter (\<lambda>w. w_file w = P_aux k) (f k) = f k" for k
    using own [of _ k] by (simp add: filter_id_conv)
  have other: "filter (\<lambda>w. w_file w = P_aux k) (f x) = []" if "x \<noteq> k" for k
    using own [of _ x] that by (auto simp: filter_empty_conv)
  from Cons have IH: "filter (\<lambda>w. w_file w = P_aux s) (concat (map f xs))
                        = (if s \<in> set xs then f s else [])"
    and nx: "x \<notin> set xs"
    by simp_all
  show ?case
  proof (cases "s = x")
    case True
    with IH nx show ?thesis by (simp add: same)
  next
    case False
    then have "x \<noteq> s" by simp
    with IH False show ?thesis by (simp add: other)
  qed
qed

lemma write_roots_sector_files:
  "w \<in> set (write_roots_sector C e hasher zero roots_c roots_r i) \<Longrightarrow> w_file w = P_aux i"
  by (auto simp: write_roots_sector_def Let_def split: if_splits)

lemma roots_in_partition_roots:
  assumes "GetNumTreeRCFiles (params e) \<le> TREE_ARITY C"
  shows "roots_in C roots sector =
           partition_roots C e roots sector @
           map (\<lambda>i. roots ! (i * PARALLEL_SECTORS C + sector))
             [GetNumTreeRCFiles (params e) ..< TREE_ARITY C]"
proof -
  from assms obtain k where k: "TREE_ARITY C = GetNumTreeRCFiles (params e) + k"
    by (auto simp: le_iff_add)
  have "[0 ..< GetNumTreeRCFiles (params e) + k] =
      [0 ..< GetNumTreeRCFiles (params e)] @
      [GetNumTreeRCFiles (params e) ..< GetNumTreeRCFiles (params e) + k]"
    by (rule upt_add_eq_append) simp
  with k have "[0 ..< TREE_ARITY C] =
      [0 ..< GetNumTreeRCFiles (params e)] @ [GetNumTreeRCFiles (params e) ..< TREE_ARITY C]"
    by simp
  then show ?thesis by (simp add: roots_in_def partition_roots_def)
qed

text \<open>
  What \<open>write_roots\<close> writes. When the root arrays hold the \<open>PARALLEL_SECTORS * TREE_ARITY\<close>
  elements of the engine, \<open>write_roots\<close> returns, and the writes to the \<open>p_aux\<close> file of a
  sector are exactly two, of one element each, at element offsets 0 and 1. With more than
  one partition the first element is the hash of the \<open>TREE_ARITY\<close> entries
  \<open>roots_c[i * PARALLEL_SECTORS + sector]\<close> (zero when only tree-R is built) and the second the
  hash of the same entries of \<open>roots_r\<close>; with one partition they are \<open>roots_c[sector]\<close>
  (zero when only tree-R is built) and \<open>roots_r[sector]\<close>. The entries hashed are the roots
  of the partitions of the sector followed by the \<open>TREE_ARITY - P\<close> entries after them, so
  they are the roots of the partitions alone exactly when \<open>P = TREE_ARITY\<close>.
\<close>

lemma write_roots_writes:
  assumes len: "PARALLEL_SECTORS C * TREE_ARITY C \<le> length roots_c"
      "PARALLEL_SECTORS C * TREE_ARITY C \<le> length roots_r"
    and s: "sector < PARALLEL_SECTORS C"
  shows "(\<exists>ws. write_roots C e hasher zero roots_c roots_r = Inr ws \<and>
           filter (\<lambda>w. w_file w = P_aux sector) ws =
             [\<lparr>w_file = P_aux sector, w_offset = 0,
               w_data = [if tree_r_only e then zero
                         else if 1 < GetNumTreeRCFiles (params e)
                         then hasher (roots_in C roots_c sector)
                         else roots_c ! sector]\<rparr>,
              \<lparr>w_file = P_aux sector, w_offset = 1,
               w_data = [if 1 < GetNumTreeRCFiles (params e)
                         then hasher (roots_in C roots_r sector)
                         else roots_r ! sector]\<rparr>]) \<and>
         (\<forall>roots :: 'a list.
            roots_in C roots sector =
              map (\<lambda>i. roots ! (i * PARALLEL_SECTORS C + sector)) [0 ..< TREE_ARITY C] \<and>
            (GetNumTreeRCFiles (params e) \<le> TREE_ARITY C \<longrightarrow>
               roots_in C roots sector =
                 partition_roots C e roots sector @
                 map (\<lambda>i. roots ! (i * PARALLEL_SECTORS C + sector))
                   [GetNumTreeRCFiles (params e) ..< TREE_ARITY C]) \<and>
            (GetNumTreeRCFiles (params e) = TREE_ARITY C \<longrightarrow>
               roots_in C roots sector = partition_roots C e roots sector))"
proof (intro conjI allI impI)
  let ?f = "write_roots_sector C e hasher zero roots_c roots_r"
  from len have run: "write_roots C e hasher zero roots_c roots_r
                        = Inr (concat (map ?f [0 ..< PARALLEL_SECTORS C]))"
    by (simp add: write_roots_def)
  have "filter (\<lambda>w. w_file w = P_aux sector) (concat (map ?f [0 ..< PARALLEL_SECTORS C]))
          = ?f sector"
    using filter_concat_by_file [of ?f "[0 ..< PARALLEL_SECTORS C]" sector] s
    by (simp add: write_roots_sector_files)
  also have "?f sector =
             [\<lparr>w_file = P_aux sector, w_offset = 0,
               w_data = [if tree_r_only e then zero
                         else if 1 < GetNumTreeRCFiles (params e)
                         then hasher (roots_in C roots_c sector)
                         else roots_c ! sector]\<rparr>,
              \<lparr>w_file = P_aux sector, w_offset = 1,
               w_data = [if 1 < GetNumTreeRCFiles (params e)
                         then hasher (roots_in C roots_r sector)
                         else roots_r ! sector]\<rparr>]"
    by (simp add: write_roots_sector_def Let_def)
  finally show "\<exists>ws. write_roots C e hasher zero roots_c roots_r = Inr ws \<and>
           filter (\<lambda>w. w_file w = P_aux sector) ws =
             [\<lparr>w_file = P_aux sector, w_offset = 0,
               w_data = [if tree_r_only e then zero
                         else if 1 < GetNumTreeRCFiles (params e)
                         then hasher (roots_in C roots_c sector)
                         else roots_c ! sector]\<rparr>,
              \<lparr>w_file = P_aux sector, w_offset = 1,
               w_data = [if 1 < GetNumTreeRCFiles (params e)
                         then hasher (roots_in C roots_r sector)
                         else roots_r ! sector]\<rparr>]"
    using run by simp
next
  fix roots :: "'a list"
  show "roots_in C roots sector =
          map (\<lambda>i. roots ! (i * PARALLEL_SECTORS C + sector)) [0 ..< TREE_ARITY C]"
    by (simp add: roots_in_def)
next
  fix roots :: "'a list"
  assume "GetNumTreeRCFiles (params e) \<le> TREE_ARITY C"
  then show "roots_in C roots sector =
               partition_roots C e roots sector @
               map (\<lambda>i. roots ! (i * PARALLEL_SECTORS C + sector))
                 [GetNumTreeRCFiles (params e) ..< TREE_ARITY C]"
    by (rule roots_in_partition_roots)
next
  fix roots :: "'a list"
  assume "GetNumTreeRCFiles (params e) = TREE_ARITY C"
  then show "roots_in C roots sector = partition_roots C e roots sector"
    by (simp add: roots_in_def partition_roots_def)
qed

text \<open>
  Claim C1 against the code. The root arrays have room for \<open>TREE_ARITY\<close> partitions and
  \<open>write_roots\<close> always hashes \<open>TREE_ARITY\<close> entries per sector, whatever the number of
  partitions is; \<open>f p s\<close> and \<open>g p s\<close> stand for the tree-C and tree-R root of partition
  \<open>p\<close> and sector \<open>s\<close>.

  With 16 partitions of arity 8 (two sectors) the constructor returns an engine, and the
  loop of \<open>hash()\<close> stores the roots of partition 8 behind the end of the root array: the
  roots of the partitions 8 to 15 never reach \<open>write_roots\<close>.

  With 2 partitions of arity 8 the element written at offset 0 of the \<open>p_aux\<close> file of
  sector 0 is the hash of the two roots of the sector followed by six entries of the
  array that no partition has written, and likewise at offset 1.
\<close>

theorem write_roots_partition_count:
  "(case pc2_t \<lparr>PARALLEL_SECTORS = 2, TREE_ARITY = 8, NODE_SIZE = 32, sizeof_fr_t = 32,
                disk_io_batch_size = 2, num_host_batches = 1, num_host_empty_batches = 1\<rparr>
              \<lparr>GetNumNodes = 8192, GetNumTreeRCFiles = 16, GetNumTreeRCArity = 8,
                GetNumTreeRDiscardRows = 0, GetNumLayers = 11\<rparr>
              False 512 512 1 of
      None \<Rightarrow> False
    | Some e \<Rightarrow>
        GetNumTreeRCFiles (params e) = 16 \<and>
        (\<forall>(f :: nat \<Rightarrow> nat \<Rightarrow> 'a) init.
           store_roots \<lparr>PARALLEL_SECTORS = 2, TREE_ARITY = 8, NODE_SIZE = 32,
                         sizeof_fr_t = 32, disk_io_batch_size = 2, num_host_batches = 1,
                         num_host_empty_batches = 1\<rparr>
             (\<lambda>p. [f p 0, f p 1]) [0 ..< GetNumTreeRCFiles (params e)]
             (initial_partition_roots
                \<lparr>PARALLEL_SECTORS = 2, TREE_ARITY = 8, NODE_SIZE = 32,
                  sizeof_fr_t = 32, disk_io_batch_size = 2, num_host_batches = 1,
                  num_host_empty_batches = 1\<rparr> init)
           = Inl Out_of_bounds)) \<and>
   (case pc2_t \<lparr>PARALLEL_SECTORS = 2, TREE_ARITY = 8, NODE_SIZE = 32, sizeof_fr_t = 32,
                disk_io_batch_size = 2, num_host_batches = 1, num_host_empty_batches = 1\<rparr>
              \<lparr>GetNumNodes = 1024, GetNumTreeRCFiles = 2, GetNumTreeRCArity = 8,
                GetNumTreeRDiscardRows = 0, GetNumLayers = 11\<rparr>
              False 512 512 1 of
      None \<Rightarrow> False
    | Some e \<Rightarrow>
        GetNumTreeRCFiles (params e) = 2 \<and> \<not> tree_r_only e \<and>
        (\<forall>(f :: nat \<Rightarrow> nat \<Rightarrow> 'a) g init hasher zero.
           (case store_roots \<lparr>PARALLEL_SECTORS = 2, TREE_ARITY = 8, NODE_SIZE = 32,
                         sizeof_fr_t = 32, disk_io_batch_size = 2, num_host_batches = 1,
                         num_host_empty_batches = 1\<rparr>
                   (\<lambda>p. [f p 0, f p 1]) [0 ..< GetNumTreeRCFiles (params e)]
                   (initial_partition_roots
                      \<lparr>PARALLEL_SECTORS = 2, TREE_ARITY = 8, NODE_SIZE = 32,
                        sizeof_fr_t = 32, disk_io_batch_size = 2, num_host_batches = 1,
                        num_host_empty_batches = 1\<rparr> init) of
              Inl x \<Rightarrow> False
            | Inr roots_c \<Rightarrow>
               (case store_roots \<lparr>PARALLEL_SECTORS = 2, TREE_ARITY = 8, NODE_SIZE = 32,
                         sizeof_fr_t = 32, disk_io_batch_size = 2, num_host_batches = 1,
                         num_host_empty_batches = 1\<rparr>
                       (\<lambda>p. [g p 0, g p 1]) [0 ..< GetNumTreeRCFiles (params e)]
                       (initial_partition_roots
                          \<lparr>PARALLEL_SECTORS = 2, TREE_ARITY = 8, NODE_SIZE = 32,
                            sizeof_fr_t = 32, disk_io_batch_size = 2, num_host_batches = 1,
                            num_host_empty_batches = 1\<rparr> init) of
                  Inl x \<Rightarrow> False
                | Inr roots_r \<Rightarrow>
                   partition_roots \<lparr>PARALLEL_SECTORS = 2, TREE_ARITY = 8, NODE_SIZE = 32,
                         sizeof_fr_t = 32, disk_io_batch_size = 2, num_host_batches = 1,
                         num_host_empty_batches = 1\<rparr> e roots_c 0 = [f 0 0, f 1 0] \<and>
                   partition_roots \<lparr>PARALLEL_SECTORS = 2, TREE_ARITY = 8, NODE_SIZE = 32,
                         sizeof_fr_t = 32, disk_io_batch_size = 2, num_host_batches = 1,
                         num_host_empty_batches = 1\<rparr> e roots_r 0 = [g 0 0, g 1 0] \<and>
                   (case write_roots \<lparr>PARALLEL_SECTORS = 2, TREE_ARITY = 8,
                            NODE_SIZE = 32, sizeof_fr_t = 32, disk_io_batch_size = 2,
                            num_host_batches = 1, num_host_empty_batches = 1\<rparr>
                           e hasher zero roots_c roots_r of
                      Inl x \<Rightarrow> False
                    | Inr ws \<Rightarrow>
                       filter (\<lambda>w. w_file w = P_aux 0) ws =
                         [\<lparr>w_file = P_aux 0, w_offset = 0,
                           w_data = [hasher [f 0 0, f 1 0, init, init, init, init, init,
                                              init]]\<rparr>,
                          \<lparr>w_file = P_aux 0, w_offset = 1,
                           w_data = [hasher [g 0 0, g 1 0, init, init, init, init, init,
                                              init]]\<rparr>])))))"
proof -
  have r: "replicate 12 x = [x, x, x, x, x, x, x, x, x, x, x, x]" for x :: 'a
    by (simp add: eval_nat_numeral)
  show ?thesis
    by (simp add: pc2_t_def tree_address_t_def layer_loop.simps size_t_def
          offset_table_loop.simps store_partition_roots_def initial_partition_roots_def
          write_roots_def write_roots_sector_def roots_in_def partition_roots_def Let_def
          upt_conv_Cons r)
qed


section \<open>Facts about the encoding of the last layer\<close>

lemma interleaved_index_inj:
  assumes "i < S" "i' < S" "i + j * S = i' + j' * S"
  shows "i = i' \<and> j = (j' :: nat)"
proof -
  from assms(3) have "(i + j * S) mod S = (i' + j' * S) mod S" by simp
  with assms(1,2) have i: "i = i'" by simp
  with assms(3) have "j * S = j' * S" by simp
  with assms(1) have "j = j'" by simp
  with i show ?thesis by simp
qed

lemma interleaved_index_less:
  assumes "i < S" "j < (B :: nat)"
  shows "i + j * S < S * B"
proof -
  from assms(1) have "i + j * S < Suc j * S" by simp
  also from assms(2) have "Suc j * S \<le> B * S" by (intro mult_le_mono1) simp
  finally show ?thesis by (simp add: mult.commute)
qed

lemma encode_nodes_spec:
  assumes d: "distinct js" and i: "i < S"
    and b: "\<forall>j \<in> set js. start_node + j < length data_file \<and> i + j * S < length buf"
    and lf: "length data_file < 2 ^ 64" and lb: "length buf < 2 ^ 64"
  shows "\<exists>r. encode_nodes be fr_add rl S data_file start_node i js buf = Inr r \<and>
              length r = length buf \<and>
              (\<forall>j \<in> set js. r ! (i + j * S) =
                 encode_elmt be fr_add rl (buf ! (i + j * S)) (data_file ! (start_node + j))) \<and>
              (\<forall>k < length buf. (\<forall>j \<in> set js. k \<noteq> i + j * S) \<longrightarrow> r ! k = buf ! k)"
  using d b lb
proof (induction js arbitrary: buf)
  case Nil
  then show ?case by simp
next
  case (Cons j js)
  let ?v = "encode_elmt be fr_add rl (buf ! (i + j * S)) (data_file ! (start_node + j))"
  let ?buf = "buf[i + j * S := ?v]"
  from Cons.prems have dj: "distinct js" and nj: "j \<notin> set js"
    and bj: "start_node + j < length data_file" "i + j * S < length buf"
    and bs: "\<forall>j' \<in> set js. start_node + j' < length data_file \<and> i + j' * S < length ?buf"
    and lb': "length ?buf < 2 ^ 64"
    by simp_all
  from bj lf Cons.prems(3)
  have wd: "size_t (start_node + j) = start_node + j" and wk: "size_t (i + j * S) = i + j * S"
    by (simp_all add: size_t_small)
  from Cons.IH [OF dj bs lb']
  obtain r where run: "encode_nodes be fr_add rl S data_file start_node i js ?buf = Inr r"
    and len: "length r = length buf"
    and enc: "\<forall>j' \<in> set js. r ! (i + j' * S) =
                encode_elmt be fr_add rl (?buf ! (i + j' * S)) (data_file ! (start_node + j'))"
    and frame: "\<forall>k < length buf. (\<forall>j' \<in> set js. k \<noteq> i + j' * S) \<longrightarrow> r ! k = ?buf ! k"
    by auto
  have other: "i + j' * S \<noteq> i + j * S" if "j' \<in> set js" for j'
    using that nj i by auto
  have 1: "encode_nodes be fr_add rl S data_file start_node i (j # js) buf = Inr r"
    using run bj by (simp add: Let_def wd wk)
  have 2: "r ! (i + j' * S) =
             encode_elmt be fr_add rl (buf ! (i + j' * S)) (data_file ! (start_node + j'))"
    if "j' \<in> set (j # js)" for j'
  proof (cases "j' = j")
    case True
    from other have "\<forall>j'' \<in> set js. i + j * S \<noteq> i + j'' * S" by metis
    with frame bj(2) have "r ! (i + j * S) = ?buf ! (i + j * S)" by blast
    with bj(2) True show ?thesis by simp
  next
    case False
    with that have mem: "j' \<in> set js" by simp
    from other [OF mem] have "?buf ! (i + j' * S) = buf ! (i + j' * S)" by simp
    with enc mem show ?thesis by simp
  qed
  have 3: "r ! k = buf ! k"
    if "k < length buf" "\<forall>j' \<in> set (j # js). k \<noteq> i + j' * S" for k
  proof -
    from that have "r ! k = ?buf ! k" using frame by simp
    also from that have "?buf ! k = buf ! k" by simp
    finally show ?thesis .
  qed
  from 1 len 2 3 show ?case by blast
qed

lemma encode_sectors_spec:
  assumes d: "distinct sectors" and s: "\<forall>i \<in> set sectors. i < S \<and> i < length data_files"
    and long: "\<forall>i \<in> set sectors. \<forall>f. data_files ! i = Some f \<longrightarrow>
                 start_node + B \<le> length f \<and> length f < 2 ^ 64"
    and len: "S * B \<le> length buf" and lb: "length buf < 2 ^ 64"
  shows "\<exists>r. encode_sectors be fr_add rl S B data_files start_node sectors buf = Inr r \<and>
              length r = length buf \<and>
              (\<forall>i \<in> set sectors. \<forall>j < B. r ! (i + j * S) =
                 (case data_files ! i of
                    None \<Rightarrow> buf ! (i + j * S)
                  | Some f \<Rightarrow> encode_elmt be fr_add rl (buf ! (i + j * S))
                               (f ! (start_node + j)))) \<and>
              (\<forall>k < length buf. (\<forall>i \<in> set sectors. \<forall>j < B. k \<noteq> i + j * S) \<longrightarrow>
                 r ! k = buf ! k)"
  using d s long len lb
proof (induction sectors arbitrary: buf)
  case Nil
  then show ?case by simp
next
  case (Cons i sectors)
  from Cons.prems have ds: "distinct sectors" and ni: "i \<notin> set sectors"
    and iS: "i < S" and il: "i < length data_files"
    and ss: "\<forall>i' \<in> set sectors. i' < S \<and> i' < length data_files"
    and ls: "\<forall>i' \<in> set sectors. \<forall>f. data_files ! i' = Some f \<longrightarrow>
               start_node + B \<le> length f \<and> length f < 2 ^ 64"
    and len: "S * B \<le> length buf" and lb: "length buf < 2 ^ 64"
    by simp_all
  have inb: "i' + j * S < length buf" if "i' < S" "j < B" for i' j
    using interleaved_index_less [OF that] len by simp
  have apart: "i' + j' * S \<noteq> i + j * S" if "i' \<in> set sectors" for i' j' j
  proof
    assume "i' + j' * S = i + j * S"
    with ss that iS have "i' = i" using interleaved_index_inj [of i' S i j' j] by blast
    with that ni show False by simp
  qed
  show ?case
  proof (cases "data_files ! i")
    case None
    from Cons.IH [OF ds ss ls len lb]
    obtain r where run: "encode_sectors be fr_add rl S B data_files start_node sectors buf = Inr r"
      and rl: "length r = length buf"
      and enc: "\<forall>i' \<in> set sectors. \<forall>j < B. r ! (i' + j * S) =
                 (case data_files ! i' of
                    None \<Rightarrow> buf ! (i' + j * S)
                  | Some f \<Rightarrow> encode_elmt be fr_add rl (buf ! (i' + j * S))
                               (f ! (start_node + j)))"
      and frame: "\<forall>k < length buf. (\<forall>i' \<in> set sectors. \<forall>j < B. k \<noteq> i' + j * S) \<longrightarrow>
                 r ! k = buf ! k"
      by blast
    have 1: "encode_sectors be fr_add rl S B data_files start_node (i # sectors) buf = Inr r"
      using run None il by simp
    have own: "r ! (i + j * S) = buf ! (i + j * S)" if "j < B" for j
    proof -
      from apart have "\<forall>i' \<in> set sectors. \<forall>j' < B. i + j * S \<noteq> i' + j' * S" by metis
      with frame inb [OF iS that] show ?thesis by blast
    qed
    have 2: "r ! (i' + j * S) =
                 (case data_files ! i' of
                    None \<Rightarrow> buf ! (i' + j * S)
                  | Some f \<Rightarrow> encode_elmt be fr_add rl (buf ! (i' + j * S))
                               (f ! (start_node + j)))"
      if "i' \<in> set (i # sectors)" "j < B" for i' j
    proof (cases "i' = i")
      case True
      with own [OF that(2)] None show ?thesis by simp
    next
      case False
      with that enc show ?thesis by simp
    qed
    have 3: "r ! k = buf ! k"
      if "k < length buf" "\<forall>i' \<in> set (i # sectors). \<forall>j < B. k \<noteq> i' + j * S" for k
      using that frame by simp
    from 1 rl 2 3 show ?thesis by blast
  next
    case (Some f)
    with Cons.prems have fl: "start_node + B \<le> length f" and ff: "length f < 2 ^ 64"
      by simp_all
    have "\<forall>j \<in> set [0 ..< B]. start_node + j < length f \<and> i + j * S < length buf"
      using fl inb [OF iS] by simp
    from encode_nodes_spec [OF _ iS this ff lb, of be fr_add rl]
    obtain buf' where n: "encode_nodes be fr_add rl S f start_node i [0 ..< B] buf = Inr buf'"
      and bl: "length buf' = length buf"
      and benc: "\<forall>j \<in> set [0 ..< B]. buf' ! (i + j * S) =
                 encode_elmt be fr_add rl (buf ! (i + j * S)) (f ! (start_node + j))"
      and bframe: "\<forall>k < length buf. (\<forall>j \<in> set [0 ..< B]. k \<noteq> i + j * S) \<longrightarrow>
                     buf' ! k = buf ! k"
      by auto
    from len bl have len': "S * B \<le> length buf'" by simp
    from lb bl have lb': "length buf' < 2 ^ 64" by simp
    from Cons.IH [OF ds ss ls len' lb']
    obtain r where run: "encode_sectors be fr_add rl S B data_files start_node sectors buf' = Inr r"
      and rl: "length r = length buf'"
      and enc: "\<forall>i' \<in> set sectors. \<forall>j < B. r ! (i' + j * S) =
                 (case data_files ! i' of
                    None \<Rightarrow> buf' ! (i' + j * S)
                  | Some f \<Rightarrow> encode_elmt be fr_add rl (buf' ! (i' + j * S))
                               (f ! (start_node + j)))"
      and frame: "\<forall>k < length buf'. (\<forall>i' \<in> set sectors. \<forall>j < B. k \<noteq> i' + j * S) \<longrightarrow>
                 r ! k = buf' ! k"
      by blast
    have 1: "encode_sectors be fr_add rl S B data_files start_node (i # sectors) buf = Inr r"
      using run n Some il by simp
    have keep: "buf' ! (i' + j * S) = buf ! (i' + j * S)"
      if "i' \<in> set sectors" "j < B" for i' j
    proof -
      from ss that have "i' < S" by simp
      from inb [OF this that(2)] have "i' + j * S < length buf" .
      moreover from apart [OF that(1)]
      have "\<forall>j' \<in> set [0 ..< B]. i' + j * S \<noteq> i + j' * S" by simp
      ultimately show ?thesis using bframe by blast
    qed
    have own: "r ! (i + j * S) =
                encode_elmt be fr_add rl (buf ! (i + j * S)) (f ! (start_node + j))"
      if "j < B" for j
    proof -
      from apart have "\<forall>i' \<in> set sectors. \<forall>j' < B. i + j * S \<noteq> i' + j' * S" by metis
      moreover from inb [OF iS that] bl have "i + j * S < length buf'" by simp
      ultimately have "r ! (i + j * S) = buf' ! (i + j * S)" using frame by blast
      with benc that show ?thesis by simp
    qed
    have 2: "r ! (i' + j * S) =
                 (case data_files ! i' of
                    None \<Rightarrow> buf ! (i' + j * S)
                  | Some f \<Rightarrow> encode_elmt be fr_add rl (buf ! (i' + j * S))
                               (f ! (start_node + j)))"
      if "i' \<in> set (i # sectors)" "j < B" for i' j
    proof (cases "i' = i")
      case True
      with own [OF that(2)] Some show ?thesis by simp
    next
      case False
      with that have mem: "i' \<in> set sectors" by simp
      with enc that(2) keep [OF mem that(2)] show ?thesis by (simp split: option.splits)
    qed
    have 3: "r ! k = buf ! k"
      if "k < length buf" "\<forall>i' \<in> set (i # sectors). \<forall>j < B. k \<noteq> i' + j * S" for k
    proof -
      from that bl frame have "r ! k = buf' ! k" by simp
      also from that bframe have "buf' ! k = buf ! k" by simp
      finally show ?thesis .
    qed
    from 1 rl bl 2 3 show ?thesis by (intro exI [of _ r] conjI) auto
  qed
qed

lemma layer11_start_eq:
  assumes tro: "tree_r_only e \<longrightarrow> PARALLEL_SECTORS C * batch_size e \<le> length column_data"
    and full: "\<not> tree_r_only e \<longrightarrow>
                 1 \<le> GetNumLayers (params e) \<and>
                 PARALLEL_SECTORS C * GetNumLayers (params e) * batch_size e
                   \<le> length column_data"
    and lim: "length (column_data :: 'fr list) < 2 ^ 64"
  shows "layer11_start C e =
           (if tree_r_only e then 0
            else PARALLEL_SECTORS C * (GetNumLayers (params e) - 1) * batch_size e) \<and>
         layer11_start C e + PARALLEL_SECTORS C * batch_size e \<le> length column_data"
proof (cases "tree_r_only e")
  case True
  with tro show ?thesis by (simp add: layer11_start_def)
next
  case False
  let ?S = "PARALLEL_SECTORS C" and ?N = "GetNumLayers (params e)" and ?B = "batch_size e"
  from False full have N: "1 \<le> ?N" and len: "?S * ?N * ?B \<le> length column_data"
    by simp_all
  from N obtain m where m: "?N = Suc m" by (cases ?N) simp_all
  have split: "?S * ?N * ?B = ?S * (?N - 1) * ?B + ?S * ?B"
    by (simp add: m algebra_simps)
  with len lim have "?S * (?N - 1) * ?B < 2 ^ 64" by simp
  then have "size_t (?S * (?N - 1) * ?B) = ?S * (?N - 1) * ?B" by (rule size_t_small)
  moreover from N have "size_t_sub ?N 1 = ?N - 1" by (simp add: size_t_sub_def)
  ultimately have "layer11_start C e = ?S * (?N - 1) * ?B"
    using False by (simp add: layer11_start_def)
  with split len False show ?thesis by simp
qed

text \<open>
  Claim C8. \<open>column_data\<close> is an array of fewer than \<open>2 ^ 64\<close> elements that holds the
  \<open>N = GetNumLayers()\<close> layers of \<open>PARALLEL_SECTORS * batch_size\<close> elements each (only the
  last layer when only tree-R is built), and every open data file has fewer than
  \<open>2 ^ 64\<close> elements and holds \<open>batch_size\<close> elements from \<open>start_node\<close> on. Then state \<open>DATA_WAIT\<close> returns the replica buffer. The
  element of the last layer for sector \<open>i\<close> and position \<open>j\<close> is element
  \<open>PARALLEL_SECTORS * (N - 1) * batch_size + i + j * PARALLEL_SECTORS\<close> of \<open>column_data\<close>
  (element \<open>i + j * PARALLEL_SECTORS\<close> when only tree-R is built). The replica element at
  index \<open>i + j * PARALLEL_SECTORS\<close> is, for a sector with an open data file, the field sum
  of that element and the element \<open>start_node + j\<close> of the data file, the element of the
  layer being reversed before the addition and the sum reversed back exactly when the data
  of the reader is not big-endian; for a sector with no data file it is the element of the
  last layer.
\<close>

theorem data_wait_encode_spec:
  assumes tro: "tree_r_only e \<longrightarrow> PARALLEL_SECTORS C * batch_size e \<le> length column_data"
    and full: "\<not> tree_r_only e \<longrightarrow>
                 1 \<le> GetNumLayers (params e) \<and>
                 PARALLEL_SECTORS C * GetNumLayers (params e) * batch_size e
                   \<le> length column_data"
    and lim: "length column_data < 2 ^ 64"
    and files: "length data_files = PARALLEL_SECTORS C"
    and long: "\<forall>i < PARALLEL_SECTORS C. \<forall>f. data_files ! i = Some f \<longrightarrow>
                 start_node + batch_size e \<le> length f \<and> length f < 2 ^ 64"
  shows "\<exists>replica.
           data_wait_encode C e be fr_add reverse_l data_files column_data start_node
             = Inr replica \<and>
           length replica = PARALLEL_SECTORS C * batch_size e \<and>
           (\<forall>i < PARALLEL_SECTORS C. \<forall>j < batch_size e.
              replica ! (i + j * PARALLEL_SECTORS C) =
                (let elmt = column_data !
                       ((if tree_r_only e then 0
                         else PARALLEL_SECTORS C * (GetNumLayers (params e) - 1)
                                * batch_size e)
                        + (i + j * PARALLEL_SECTORS C))
                 in case data_files ! i of
                      None \<Rightarrow> elmt
                    | Some f \<Rightarrow>
                       (if be then fr_add elmt (f ! (start_node + j))
                        else reverse_l (fr_add (reverse_l elmt) (f ! (start_node + j))))))"
proof -
  let ?S = "PARALLEL_SECTORS C" and ?B = "batch_size e"
  let ?l11 = "if tree_r_only e then 0
              else PARALLEL_SECTORS C * (GetNumLayers (params e) - 1) * batch_size e"
  let ?buf = "take (?S * ?B) (drop (layer11_start C e) column_data)"
  from layer11_start_eq [OF tro full lim]
  have l11: "layer11_start C e = ?l11"
    and col: "layer11_start C e + ?S * ?B \<le> length column_data"
    by simp_all
  from col have bl: "length ?buf = ?S * ?B" by simp
  have at: "?buf ! k = column_data ! (?l11 + k)" if "k < ?S * ?B" for k
  proof -
    from that col have "?buf ! k = column_data ! (layer11_start C e + k)" by simp
    then show ?thesis by (simp only: l11)
  qed
  have "\<exists>r. encode_sectors be fr_add reverse_l ?S ?B data_files start_node [0 ..< ?S] ?buf
               = Inr r \<and>
            length r = length ?buf \<and>
            (\<forall>i \<in> set [0 ..< ?S]. \<forall>j < ?B. r ! (i + j * ?S) =
               (case data_files ! i of
                  None \<Rightarrow> ?buf ! (i + j * ?S)
                | Some f \<Rightarrow> encode_elmt be fr_add reverse_l (?buf ! (i + j * ?S))
                             (f ! (start_node + j)))) \<and>
            (\<forall>k < length ?buf. (\<forall>i \<in> set [0 ..< ?S]. \<forall>j < ?B. k \<noteq> i + j * ?S) \<longrightarrow>
               r ! k = ?buf ! k)"
  proof (rule encode_sectors_spec)
    show "distinct [0 ..< ?S]" by simp
    show "\<forall>i \<in> set [0 ..< ?S]. i < ?S \<and> i < length data_files" using files by simp
    show "\<forall>i \<in> set [0 ..< ?S]. \<forall>f. data_files ! i = Some f \<longrightarrow>
            start_node + ?B \<le> length f \<and> length f < 2 ^ 64"
      using long by simp
    show "?S * ?B \<le> length ?buf" using bl by simp
    show "length ?buf < 2 ^ 64" using col lim by simp
  qed
  then obtain r
    where run: "encode_sectors be fr_add reverse_l ?S ?B data_files start_node [0 ..< ?S] ?buf
                  = Inr r"
      and rl: "length r = length ?buf"
      and enc: "\<forall>i \<in> set [0 ..< ?S]. \<forall>j < ?B. r ! (i + j * ?S) =
               (case data_files ! i of
                  None \<Rightarrow> ?buf ! (i + j * ?S)
                | Some f \<Rightarrow> encode_elmt be fr_add reverse_l (?buf ! (i + j * ?S))
                             (f ! (start_node + j)))"
    by blast
  from col run have 1: "data_wait_encode C e be fr_add reverse_l data_files column_data start_node
                          = Inr r"
    by (simp add: data_wait_encode_def)
  have 2: "r ! (i + j * ?S) =
                (let elmt = column_data ! (?l11 + (i + j * ?S))
                 in case data_files ! i of
                      None \<Rightarrow> elmt
                    | Some f \<Rightarrow>
                       (if be then fr_add elmt (f ! (start_node + j))
                        else reverse_l (fr_add (reverse_l elmt) (f ! (start_node + j)))))"
    if "i < ?S" "j < ?B" for i j
  proof -
    from interleaved_index_less [OF that] have "i + j * ?S < ?S * ?B" .
    from at [OF this] have a: "?buf ! (i + j * ?S) = column_data ! (?l11 + (i + j * ?S))" .
    from enc that have "r ! (i + j * ?S) =
               (case data_files ! i of
                  None \<Rightarrow> ?buf ! (i + j * ?S)
                | Some f \<Rightarrow> encode_elmt be fr_add reverse_l (?buf ! (i + j * ?S))
                             (f ! (start_node + j)))"
      by simp
    then show ?thesis unfolding a
      by (simp add: encode_elmt_def Let_def split: option.splits)
  qed
  from 1 rl bl 2 show ?thesis by (intro exI [of _ r] conjI) (simp_all only:, blast)
qed

theorem data_wait_encode_spec_witness:
  "\<exists>e. pc2_t \<lparr>PARALLEL_SECTORS = 2, TREE_ARITY = 8, NODE_SIZE = 32, sizeof_fr_t = 32,
                disk_io_batch_size = 2, num_host_batches = 1, num_host_empty_batches = 1\<rparr>
              \<lparr>GetNumNodes = 512, GetNumTreeRCFiles = 1, GetNumTreeRCArity = 8,
                GetNumTreeRDiscardRows = 0, GetNumLayers = 11\<rparr>
              False 512 512 1 = Some e \<and>
        \<not> tree_r_only e \<and> 1 \<le> GetNumLayers (params e) \<and>
        2 * GetNumLayers (params e) * batch_size e \<le> length [0 ..< 11264] \<and>
        length [0 ..< 11264] < (2 :: nat) ^ 64 \<and>
        length [Some (replicate 512 (1 :: nat)), None] = 2 \<and>
        (\<forall>i < 2. \<forall>f. [Some (replicate 512 (1 :: nat)), None] ! i = Some f \<longrightarrow>
           0 + batch_size e \<le> length f \<and> length f < 2 ^ 64) \<and>
        (\<exists>replica.
           data_wait_encode \<lparr>PARALLEL_SECTORS = 2, TREE_ARITY = 8, NODE_SIZE = 32,
                sizeof_fr_t = 32, disk_io_batch_size = 2, num_host_batches = 1,
                num_host_empty_batches = 1\<rparr> e False (+) (\<lambda>x. 2 * x)
             [Some (replicate 512 1), None] [0 ..< 11264] 0 = Inr replica \<and>
           replica ! (0 + 3 * 2) = 2 * (2 * (2 * (11 - 1) * 512 + (0 + 3 * 2)) + 1) \<and>
           replica ! (1 + 3 * 2) = 2 * (11 - 1) * 512 + (1 + 3 * 2))"
proof -
  define C where "C = \<lparr>PARALLEL_SECTORS = 2, TREE_ARITY = 8, NODE_SIZE = 32, sizeof_fr_t = 32,
                  disk_io_batch_size = 2, num_host_batches = 1, num_host_empty_batches = 1\<rparr>"
  define ps where "ps = \<lparr>GetNumNodes = 512, GetNumTreeRCFiles = 1, GetNumTreeRCArity = 8,
                  GetNumTreeRDiscardRows = 0, GetNumLayers = 11\<rparr>"
  define dfs where "dfs = [Some (replicate 512 (1 :: nat)), None]"
  define col where "col = [0 ..< 11264 :: nat]"
  have "\<exists>e. pc2_t C ps False 512 512 1 = Some e \<and> batch_size e = 512 \<and> \<not> tree_r_only e \<and>
             GetNumLayers (params e) = 11"
    by (simp add: C_def ps_def pc2_t_def tree_address_t_def layer_loop.simps size_t_def
          offset_table_loop.simps)
  then obtain e where e: "pc2_t C ps False 512 512 1 = Some e" and B: "batch_size e = 512"
    and t: "\<not> tree_r_only e" and L: "GetNumLayers (params e) = 11"
    by blast
  have S: "PARALLEL_SECTORS C = 2" by (simp add: C_def)
  have clen: "length col = 11264" by (simp add: col_def)
  have cnth: "col ! k = k" if "k < 11264" for k
    using that by (simp add: col_def)
  have h1: "tree_r_only e \<longrightarrow> PARALLEL_SECTORS C * batch_size e \<le> length col"
    by (simp add: t)
  have h2: "\<not> tree_r_only e \<longrightarrow>
                 1 \<le> GetNumLayers (params e) \<and>
                 PARALLEL_SECTORS C * GetNumLayers (params e) * batch_size e \<le> length col"
    by (simp add: L S B clen)
  have h3: "length col < 2 ^ 64" by (simp add: clen)
  have h4: "length dfs = PARALLEL_SECTORS C" by (simp add: dfs_def S)
  have h5: "\<forall>i < PARALLEL_SECTORS C. \<forall>f. dfs ! i = Some f \<longrightarrow>
              0 + batch_size e \<le> length f \<and> length f < 2 ^ 64"
    by (auto simp: S B dfs_def less_2_cases_iff)
  from data_wait_encode_spec [OF h1 h2 h3 h4 h5, of False "(+)" "\<lambda>x. 2 * x"]
  obtain replica
    where run: "data_wait_encode C e False (+) (\<lambda>x. 2 * x) dfs col 0 = Inr replica"
      and enc: "\<forall>i < PARALLEL_SECTORS C. \<forall>j < batch_size e.
              replica ! (i + j * PARALLEL_SECTORS C) =
                (let elmt = col !
                       ((if tree_r_only e then 0
                         else PARALLEL_SECTORS C * (GetNumLayers (params e) - 1)
                                * batch_size e)
                        + (i + j * PARALLEL_SECTORS C))
                 in case dfs ! i of
                      None \<Rightarrow> elmt
                    | Some f \<Rightarrow>
                       (if False then elmt + f ! (0 + j)
                        else 2 * (2 * elmt + f ! (0 + j))))"
    by blast
  have i0: "0 < PARALLEL_SECTORS C" and i1: "1 < PARALLEL_SECTORS C"
    and j3: "3 < batch_size e"
    by (simp_all add: S B)
  from enc [rule_format, OF i0 j3]
  have r0: "replica ! (0 + 3 * 2) = 2 * (2 * (2 * (11 - 1) * 512 + (0 + 3 * 2)) + 1)"
    by (simp add: S t L B cnth dfs_def)
  from enc [rule_format, OF i1 j3]
  have r1: "replica ! (1 + 3 * 2) = 2 * (11 - 1) * 512 + (1 + 3 * 2)"
    by (simp add: S t L B cnth dfs_def)
  from h2 t have g1: "1 \<le> GetNumLayers (params e)"
    and g2: "2 * GetNumLayers (params e) * batch_size e \<le> length col"
    by (simp_all add: S)
  from h4 have g4: "length dfs = 2" by (simp add: S)
  from h5 have g5: "\<forall>i < 2. \<forall>f. dfs ! i = Some f \<longrightarrow>
                      0 + batch_size e \<le> length f \<and> length f < 2 ^ 64"
    by (simp add: S)
  from run r0 r1
  have g6: "\<exists>replica. data_wait_encode C e False (+) (\<lambda>x. 2 * x) dfs col 0 = Inr replica \<and>
           replica ! (0 + 3 * 2) = 2 * (2 * (2 * (11 - 1) * 512 + (0 + 3 * 2)) + 1) \<and>
           replica ! (1 + 3 * 2) = 2 * (11 - 1) * 512 + (1 + 3 * 2)"
    by blast
  from e t g1 g2 h3 g4 g5 g6
  have "\<exists>e. pc2_t C ps False 512 512 1 = Some e \<and>
        \<not> tree_r_only e \<and> 1 \<le> GetNumLayers (params e) \<and>
        2 * GetNumLayers (params e) * batch_size e \<le> length col \<and>
        length col < (2 :: nat) ^ 64 \<and>
        length dfs = 2 \<and>
        (\<forall>i < 2. \<forall>f. dfs ! i = Some f \<longrightarrow>
           0 + batch_size e \<le> length f \<and> length f < 2 ^ 64) \<and>
        (\<exists>replica. data_wait_encode C e False (+) (\<lambda>x. 2 * x) dfs col 0 = Inr replica \<and>
           replica ! (0 + 3 * 2) = 2 * (2 * (2 * (11 - 1) * 512 + (0 + 3 * 2)) + 1) \<and>
           replica ! (1 + 3 * 2) = 2 * (11 - 1) * 512 + (1 + 3 * 2))"
    by (intro exI [of _ e] conjI)
  then show ?thesis unfolding C_def ps_def dfs_def col_def .
qed


section \<open>Facts about the CPU top of a tree\<close>

lemma tree_offsets_dvd:
  assumes ar: "2 \<le> ar" and small: "(2 * lc + 1) * ns < 2 ^ 64"
    and t: "tree_address_t lc ar ns skips = Some t"
  shows "node_size t = ns \<and> (\<forall>i < length (layer_offsets t). ns dvd layer_offsets t ! i) \<and>
         ns dvd data_size t \<and> data_size t < 2 ^ 64"
proof -
  from t ar have dv: "lc mod ar = 0"
    by (auto simp: tree_address_t_def split: if_splits)
  from tree_address_t_spec [OF ar dv small, of skips] t
  have ns: "node_size t = ns" and ne: "layer_offsets t \<noteq> []" and z: "layer_offsets t ! 0 = 0"
    and step: "\<And>i. Suc i < length (layer_offsets t) \<Longrightarrow>
                 layer_offsets t ! Suc i = layer_offsets t ! i + nodes_at lc ar skips i * ns"
    and lim: "last (layer_offsets t) + ns < 2 ^ 64"
    and ds: "data_size t = last (layer_offsets t) + ns"
    by auto
  have offs: "ns dvd layer_offsets t ! i" if "i < length (layer_offsets t)" for i
    using offs_sum [of "layer_offsets t" "nodes_at lc ar skips" ns, OF step z that] by simp
  from ne have "last (layer_offsets t) = layer_offsets t ! (length (layer_offsets t) - 1)"
    by (simp add: last_conv_nth)
  with offs [of "length (layer_offsets t) - 1"] ne have "ns dvd last (layer_offsets t)"
    by simp
  then have "ns dvd data_size t" by (simp add: ds)
  moreover from lim ds have "data_size t < 2 ^ 64" by simp
  ultimately show ?thesis using ns offs by blast
qed

lemma tree_arity:
  "tree_address_t lc ar ns skips = Some t \<Longrightarrow> arity t = ar"
  by (auto simp: tree_address_t_def Option.bind_eq_Some_conv split: if_splits)

lemma pc2_t_trees:
  assumes e: "pc2_t C ps tro ntr B K = Some e"
  shows "batch_size e = B \<and> stream_count e = K \<and>
         tree_address_t (GetNumNodes ps div GetNumTreeRCFiles ps) (TREE_ARITY C) (NODE_SIZE C) 0
           = Some (tree_c_address e) \<and>
         tree_address_t (GetNumNodes ps div GetNumTreeRCFiles ps) (TREE_ARITY C) (NODE_SIZE C)
             (GetNumTreeRDiscardRows ps + 1)
           = Some (tree_r_address e) \<and>
         (\<exists>final_tree.
            tree_address_t (size_t (B * K) div TREE_ARITY C div TREE_ARITY C) (TREE_ARITY C)
              (sizeof_fr_t C) 0 = Some final_tree \<and>
            final_gpu_offset_c e
              = size_t_sub (data_size (tree_c_address e)) (data_size final_tree) \<and>
            final_gpu_offset_r e
              = size_t_sub (data_size (tree_r_address e)) (data_size final_tree))"
  using e
  by (auto simp: pc2_t_def Option.bind_eq_Some_conv split: if_splits)

lemma hash_sectors_spec:
  assumes "\<forall>s \<in> set ss. hash_inputs C G input w s = Inr (f s)"
  shows "hash_sectors C hasher G input tf off w ss =
           Inr (map (\<lambda>s. hasher (f s)) ss,
                map (\<lambda>s. \<lparr>w_file = tf s, w_offset = off div sizeof_fr_t C,
                          w_data = [hasher (f s)]\<rparr>) ss)"
  using assms by (induction ss) simp_all

lemma leaf_input_index_small:
  assumes n: "n * TREE_ARITY C + i < 2 ^ 64"
    and x: "(n * TREE_ARITY C + i) div G * G * PARALLEL_SECTORS C + s * G
              + (n * TREE_ARITY C + i) mod G < 2 ^ 64"
  shows "leaf_input_index C G n s i =
           (n * TREE_ARITY C + i) div G * G * PARALLEL_SECTORS C + s * G
             + (n * TREE_ARITY C + i) mod G"
proof -
  from n have "n * TREE_ARITY C < 2 ^ 64" by simp
  then have 1: "size_t (n * TREE_ARITY C) = n * TREE_ARITY C" by (rule size_t_small)
  from n have 2: "size_t (n * TREE_ARITY C + i) = n * TREE_ARITY C + i" by (rule size_t_small)
  from x show ?thesis by (simp add: leaf_input_index_def Let_def 1 2 size_t_small)
qed

lemma hash_cpu_run:
  assumes B: "batch_size e = B" and K: "stream_count e = K"
    and ar: "2 \<le> TREE_ARITY C"
    and BK: "B * K < 2 ^ 64"
    and ft: "tree_address_t (B * K div TREE_ARITY C div TREE_ARITY C) (TREE_ARITY C)
               (sizeof_fr_t C) 0 = Some ft"
    and grp: "B div TREE_ARITY C mod TREE_ARITY C = 0"
    and lay: "0 < layer (idx w)"
    and adr: "address ft \<lparr>layer = layer (idx w) - 1, node = node (idx w)\<rparr> = Some a"
    and ins: "\<forall>s < PARALLEL_SECTORS C. hash_inputs C (B div TREE_ARITY C) input w s = Inr (f s)"
  shows "hash_cpu C e hasher input tf off w =
           Inr (map (\<lambda>s. hasher (f s)) [0 ..< PARALLEL_SECTORS C],
                map (\<lambda>s. \<lparr>w_file = tf s,
                          w_offset = size_t (a + off) div sizeof_fr_t C,
                          w_data = [hasher (f s)]\<rparr>) [0 ..< PARALLEL_SECTORS C])"
proof -
  from ar have A: "TREE_ARITY C \<noteq> 0" by simp
  from BK have w: "size_t (B * K) = B * K" by (rule size_t_small)
  have "hash_cpu C e hasher input tf off w =
          hash_func C hasher ft (B div TREE_ARITY C) input tf off w"
    using A grp ft by (simp add: hash_cpu_def Let_def B K w)
  also have "\<dots> = hash_sectors C hasher (B div TREE_ARITY C) input tf
                      (size_t (a + off)) w [0 ..< PARALLEL_SECTORS C]"
    using lay adr by (simp add: hash_func_def)
  also have "\<dots> = Inr (map (\<lambda>s. hasher (f s)) [0 ..< PARALLEL_SECTORS C],
                map (\<lambda>s. \<lparr>w_file = tf s,
                          w_offset = size_t (a + off) div sizeof_fr_t C,
                          w_data = [hasher (f s)]\<rparr>) [0 ..< PARALLEL_SECTORS C])"
    by (rule hash_sectors_spec) (use ins in simp)
  finally show ?thesis .
qed

lemma file_offset_sum:
  assumes x: "x < 2 ^ 64" and y: "y < 2 ^ 64" and a: "a < y" and le: "y \<le> a + x"
  shows "size_t (a + size_t_sub x y) = a + x - y"
proof -
  define M :: nat where "M = 2 ^ 64"
  from a x have small: "a + x - y < M" by (simp add: M_def)
  show ?thesis
  proof (cases "y \<le> x")
    case True
    then have "a + size_t_sub x y = a + x - y" by (simp add: size_t_sub_def)
    with small show ?thesis by (simp add: size_t_def M_def)
  next
    case False
    with x y have "x + M - y < M" by (simp add: M_def)
    then have "(x + M - y) mod M = x + M - y" by simp
    with False have "size_t_sub x y = x + M - y" by (simp add: size_t_sub_def M_def)
    moreover from le y have "a + (x + M - y) = (a + x - y) + M" by (simp add: M_def)
    ultimately have "size_t (a + size_t_sub x y) = ((a + x - y) + M) mod M"
      by (simp add: size_t_def M_def)
    also have "\<dots> = a + x - y" using small by simp
    finally show ?thesis .
  qed
qed

lemma top_offset_aligned:
  assumes ar: "2 \<le> ar"
    and small: "(2 * lc + 1) * ns < 2 ^ 64"
    and t: "tree_address_t lc ar ns skips = Some t"
    and small': "(2 * lc' + 1) * ns < 2 ^ 64" and ns: "0 < ns"
    and ft: "tree_address_t lc' ar ns 0 = Some ft"
    and ins: "inside_tree lc' 0 ft nid"
    and adr: "address ft nid = Some a"
    and le: "data_size ft \<le> a + data_size t"
  shows "size_t (a + size_t_sub (data_size t) (data_size ft)) div ns * ns
           = size_t (a + size_t_sub (data_size t) (data_size ft)) \<and>
         size_t (a + size_t_sub (data_size t) (data_size ft)) + data_size ft
           = a + data_size t"
proof -
  from tree_offsets_dvd [OF ar small t]
  have 1: "ns dvd data_size t" and x: "data_size t < 2 ^ 64" by simp_all
  from tree_offsets_dvd [OF ar small' ft]
  have 2: "ns dvd data_size ft" and y: "data_size ft < 2 ^ 64"
    and offs: "\<forall>i < length (layer_offsets ft). ns dvd layer_offsets ft ! i"
    by simp_all
  from tree_address_facts [OF ar ns small' ft] ins adr
  have a: "a = layer_offsets ft ! layer nid + node nid * ns" and lt: "a < data_size ft"
    by auto
  from ins offs have "ns dvd layer_offsets ft ! layer nid" by (simp add: inside_tree_def)
  with a have 3: "ns dvd a" by simp
  from file_offset_sum [OF x y lt le]
  have eq: "size_t (a + size_t_sub (data_size t) (data_size ft))
              = a + data_size t - data_size ft" .
  from 1 3 have "ns dvd a + data_size t" by simp
  from this 2 have "ns dvd a + data_size t - data_size ft" by (rule dvd_diff_nat)
  then have "(a + data_size t - data_size ft) div ns * ns = a + data_size t - data_size ft"
    by (rule dvd_div_mult_self)
  with eq le show ?thesis by simp
qed

text \<open>
  Claim C7. \<open>e\<close> is an engine the constructor has returned (arity at least 2,
  \<open>batch_size * stream_count\<close> below \<open>2 ^ 64\<close>) and \<open>ft\<close> the tree \<open>final_tree\<close> that
  \<open>hash_cpu\<close> builds: arity \<open>TREE_ARITY\<close>, node size \<open>sizeof(fr_t)\<close>, over
  \<open>batch_size * stream_count / TREE_ARITY / TREE_ARITY\<close> leaves, smaller than \<open>2 ^ 64\<close>
  bytes. For a work item whose node one layer down is inside \<open>ft\<close> and whose reads are in
  range, both calls of \<open>hash_cpu\<close> in \<open>hash()\<close> return. The hash of sector \<open>s\<close> is taken,
  for a leaf work item at node \<open>n\<close>, over the inputs
  \<open>input[input_group * group_size * PARALLEL_SECTORS + s * group_size + node_in_group]\<close>,
  \<open>i < TREE_ARITY\<close>, with \<open>group_size = batch_size / TREE_ARITY\<close>,
  \<open>input_group = (n * TREE_ARITY + i) / group_size\<close> and
  \<open>node_in_group = (n * TREE_ARITY + i) % group_size\<close>, and for an inner work item over
  element \<open>s\<close> of its input buffers. It is written, alone, to the file of the sector and
  partition at the element offset \<open>(a + file_offset) / sizeof(fr_t)\<close>, the sum taken on
  \<open>size_t\<close>, where \<open>a\<close> is the address in \<open>ft\<close> of the node one layer down and
  \<open>file_offset\<close> the data size of the tree of the partition minus the data size of \<open>ft\<close>,
  taken on \<open>size_t\<close>. When \<open>NODE_SIZE = sizeof(fr_t)\<close>, the tree of the partition is
  smaller than \<open>2 ^ 64\<close> bytes and \<open>a\<close> plus its data size reaches the data size of
  \<open>ft\<close>, the byte offset of the write is \<open>a + file_offset\<close> on \<open>size_t\<close>, which is \<open>a\<close> plus
  the data size of the tree of the partition minus the data size of \<open>ft\<close>.
\<close>

theorem hash_cpu_spec:
  assumes e: "pc2_t C ps tro ntr B K = Some e"
    and ar: "2 \<le> TREE_ARITY C" and sz: "0 < sizeof_fr_t C"
    and BK: "B * K < 2 ^ 64"
    and ft: "tree_address_t (B * K div TREE_ARITY C div TREE_ARITY C) (TREE_ARITY C)
               (sizeof_fr_t C) 0 = Some ft"
    and small: "(2 * (B * K div TREE_ARITY C div TREE_ARITY C) + 1) * sizeof_fr_t C < 2 ^ 64"
    and grp: "B div TREE_ARITY C mod TREE_ARITY C = 0"
    and lay: "0 < layer (idx w)"
    and ins: "inside_tree (B * K div TREE_ARITY C div TREE_ARITY C) 0 ft
                \<lparr>layer = layer (idx w) - 1, node = node (idx w)\<rparr>"
    and inp: "length input < 2 ^ 64"
    and leaf: "is_leaf w \<longrightarrow>
                 0 < B div TREE_ARITY C \<and>
                 (\<forall>s < PARALLEL_SECTORS C. \<forall>i < TREE_ARITY C.
                    (node (idx w) * TREE_ARITY C + i) div (B div TREE_ARITY C)
                        * (B div TREE_ARITY C) * PARALLEL_SECTORS C
                      + s * (B div TREE_ARITY C)
                      + (node (idx w) * TREE_ARITY C + i) mod (B div TREE_ARITY C)
                    < length input)"
    and inner: "\<not> is_leaf w \<longrightarrow>
                 (\<forall>i < TREE_ARITY C. i < length (inputs w) \<and>
                    PARALLEL_SECTORS C \<le> length (inputs w ! i))"
  shows "\<exists>a outs ws_c ws_r.
           address ft \<lparr>layer = layer (idx w) - 1, node = node (idx w)\<rparr> = Some a \<and>
           final_gpu_offset_c e = size_t_sub (data_size (tree_c_address e)) (data_size ft) \<and>
           final_gpu_offset_r e = size_t_sub (data_size (tree_r_address e)) (data_size ft) \<and>
           outs = map (\<lambda>s. hasher
                    (if is_leaf w
                     then map (\<lambda>i. input !
                            ((node (idx w) * TREE_ARITY C + i) div (B div TREE_ARITY C)
                                * (B div TREE_ARITY C) * PARALLEL_SECTORS C
                              + s * (B div TREE_ARITY C)
                              + (node (idx w) * TREE_ARITY C + i) mod (B div TREE_ARITY C)))
                          [0 ..< TREE_ARITY C]
                     else map (\<lambda>i. inputs w ! i ! s) [0 ..< TREE_ARITY C]))
                    [0 ..< PARALLEL_SECTORS C] \<and>
           ws_c = map (\<lambda>s. \<lparr>w_file = Tree_c s part_idx,
                             w_offset = size_t (a + final_gpu_offset_c e) div sizeof_fr_t C,
                             w_data = [outs ! s]\<rparr>) [0 ..< PARALLEL_SECTORS C] \<and>
           ws_r = map (\<lambda>s. \<lparr>w_file = Tree_r s part_idx,
                             w_offset = size_t (a + final_gpu_offset_r e) div sizeof_fr_t C,
                             w_data = [outs ! s]\<rparr>) [0 ..< PARALLEL_SECTORS C] \<and>
           hash_cpu_c C e hasher input part_idx w = Inr (outs, ws_c) \<and>
           hash_cpu_r C e hasher input part_idx w = Inr (outs, ws_r) \<and>
           (NODE_SIZE C = sizeof_fr_t C \<and>
            (2 * (GetNumNodes ps div GetNumTreeRCFiles ps) + 1) * NODE_SIZE C < 2 ^ 64 \<and>
            data_size ft \<le> a + data_size (tree_c_address e) \<longrightarrow>
              (\<forall>x \<in> set ws_c.
                 byte_offset C x = size_t (a + final_gpu_offset_c e) \<and>
                 byte_offset C x + data_size ft = a + data_size (tree_c_address e))) \<and>
           (NODE_SIZE C = sizeof_fr_t C \<and>
            (2 * (GetNumNodes ps div GetNumTreeRCFiles ps) + 1) * NODE_SIZE C < 2 ^ 64 \<and>
            data_size ft \<le> a + data_size (tree_r_address e) \<longrightarrow>
              (\<forall>x \<in> set ws_r.
                 byte_offset C x = size_t (a + final_gpu_offset_r e) \<and>
                 byte_offset C x + data_size ft = a + data_size (tree_r_address e)))"
proof -
  let ?A = "TREE_ARITY C" and ?S = "PARALLEL_SECTORS C" and ?sz = "sizeof_fr_t C"
  let ?G = "B div ?A"
  let ?n = "node (idx w)"
  let ?lc = "B * K div ?A div ?A"
  let ?nid = "\<lparr>layer = layer (idx w) - 1, node = node (idx w)\<rparr>"
  let ?ix = "\<lambda>s i. (?n * ?A + i) div ?G * ?G * ?S + s * ?G + (?n * ?A + i) mod ?G"
  let ?f = "\<lambda>s. if is_leaf w
                 then map (\<lambda>i. input ! ?ix s i) [0 ..< ?A]
                 else map (\<lambda>i. inputs w ! i ! s) [0 ..< ?A]"
  from BK have wBK: "size_t (B * K) = B * K" by (rule size_t_small)
  from pc2_t_trees [OF e] ft
  have B: "batch_size e = B" and K: "stream_count e = K"
    and tc: "tree_address_t (GetNumNodes ps div GetNumTreeRCFiles ps) ?A (NODE_SIZE C) 0
               = Some (tree_c_address e)"
    and tr: "tree_address_t (GetNumNodes ps div GetNumTreeRCFiles ps) ?A (NODE_SIZE C)
               (GetNumTreeRDiscardRows ps + 1) = Some (tree_r_address e)"
    and oc: "final_gpu_offset_c e = size_t_sub (data_size (tree_c_address e)) (data_size ft)"
    and orr: "final_gpu_offset_r e = size_t_sub (data_size (tree_r_address e)) (data_size ft)"
    by (auto simp: wBK)
  from tree_address_facts [OF ar sz small ft] ins
  obtain a where adr: "address ft ?nid = Some a" by blast
  define outs where "outs = map (\<lambda>s. hasher (?f s)) [0 ..< ?S]"
  define ws_c where "ws_c = map (\<lambda>s. \<lparr>w_file = Tree_c s part_idx,
                             w_offset = size_t (a + final_gpu_offset_c e) div ?sz,
                             w_data = [outs ! s]\<rparr>) [0 ..< ?S]"
  define ws_r where "ws_r = map (\<lambda>s. \<lparr>w_file = Tree_r s part_idx,
                             w_offset = size_t (a + final_gpu_offset_r e) div ?sz,
                             w_data = [outs ! s]\<rparr>) [0 ..< ?S]"
  have nA: "?n * ?A + i < 2 ^ 64" if "i < ?A" for i
  proof -
    from ins have "?n < nodes_at ?lc ?A 0 (layer (idx w) - 1)"
      by (simp add: inside_tree_def tree_arity [OF ft])
    also have "\<dots> \<le> ?lc" by (simp add: nodes_at_div)
    finally have "Suc ?n \<le> ?lc" by simp
    then have "Suc ?n * ?A \<le> ?lc * ?A" by (rule mult_le_mono1)
    also have "\<dots> \<le> B * K div ?A" by simp
    also have "\<dots> \<le> B * K" by simp
    finally have "Suc ?n * ?A < 2 ^ 64" using BK by simp
    with that show ?thesis by simp
  qed
  have ins': "\<forall>s < ?S. hash_inputs C ?G input w s = Inr (?f s)"
  proof (cases "is_leaf w")
    case True
    with leaf have G: "0 < ?G"
      and rng: "\<And>s i. s < ?S \<Longrightarrow> i < ?A \<Longrightarrow> ?ix s i < length input"
      by simp_all
    have ix: "leaf_input_index C ?G ?n s i = ?ix s i" if "s < ?S" "i < ?A" for s i
    proof (rule leaf_input_index_small [OF nA [OF that(2)]])
      from rng [OF that] inp show "?ix s i < 2 ^ 64" by simp
    qed
    from True G rng show ?thesis
      by (simp add: hash_inputs_def ix)
  next
    case False
    with inner show ?thesis
      by (auto simp: hash_inputs_def)
  qed
  have nth_outs: "outs ! s = hasher (?f s)" if "s < ?S" for s
    using that by (simp add: outs_def)
  have run: "hash_cpu C e hasher input tf off w =
           Inr (outs,
                map (\<lambda>s. \<lparr>w_file = tf s, w_offset = size_t (a + off) div ?sz,
                          w_data = [outs ! s]\<rparr>) [0 ..< ?S])" for tf off
    unfolding hash_cpu_run [OF B K ar BK ft grp lay adr ins'] outs_def [symmetric]
    by (simp add: nth_outs)
  have rc: "hash_cpu_c C e hasher input part_idx w = Inr (outs, ws_c)"
    by (simp add: hash_cpu_c_def run ws_c_def)
  have rr: "hash_cpu_r C e hasher input part_idx w = Inr (outs, ws_r)"
    by (simp add: hash_cpu_r_def run ws_r_def)
  have bc: "\<forall>x \<in> set ws_c.
              byte_offset C x = size_t (a + final_gpu_offset_c e) \<and>
              byte_offset C x + data_size ft = a + data_size (tree_c_address e)"
    if g: "NODE_SIZE C = ?sz \<and>
           (2 * (GetNumNodes ps div GetNumTreeRCFiles ps) + 1) * NODE_SIZE C < 2 ^ 64 \<and>
           data_size ft \<le> a + data_size (tree_c_address e)"
  proof -
    from g tc have tc': "tree_address_t (GetNumNodes ps div GetNumTreeRCFiles ps) ?A ?sz 0
               = Some (tree_c_address e)" by simp
    from g have eqn: "NODE_SIZE C = ?sz"
      and sm0: "(2 * (GetNumNodes ps div GetNumTreeRCFiles ps) + 1) * NODE_SIZE C < 2 ^ 64"
      and le: "data_size ft \<le> a + data_size (tree_c_address e)"
      by blast+
    from sm0 have sm: "(2 * (GetNumNodes ps div GetNumTreeRCFiles ps) + 1) * ?sz < 2 ^ 64"
      by (simp only: eqn)
    from top_offset_aligned [OF ar sm tc' small sz ft ins adr le]
    show ?thesis by (simp add: ws_c_def byte_offset_def oc)
  qed
  have br: "\<forall>x \<in> set ws_r.
              byte_offset C x = size_t (a + final_gpu_offset_r e) \<and>
              byte_offset C x + data_size ft = a + data_size (tree_r_address e)"
    if g: "NODE_SIZE C = ?sz \<and>
           (2 * (GetNumNodes ps div GetNumTreeRCFiles ps) + 1) * NODE_SIZE C < 2 ^ 64 \<and>
           data_size ft \<le> a + data_size (tree_r_address e)"
  proof -
    from g tr have tr': "tree_address_t (GetNumNodes ps div GetNumTreeRCFiles ps) ?A ?sz
               (GetNumTreeRDiscardRows ps + 1) = Some (tree_r_address e)" by simp
    from g have eqn: "NODE_SIZE C = ?sz"
      and sm0: "(2 * (GetNumNodes ps div GetNumTreeRCFiles ps) + 1) * NODE_SIZE C < 2 ^ 64"
      and le: "data_size ft \<le> a + data_size (tree_r_address e)"
      by blast+
    from sm0 have sm: "(2 * (GetNumNodes ps div GetNumTreeRCFiles ps) + 1) * ?sz < 2 ^ 64"
      by (simp only: eqn)
    from top_offset_aligned [OF ar sm tr' small sz ft ins adr le]
    show ?thesis by (simp add: ws_r_def byte_offset_def orr)
  qed
  from adr oc orr rc rr bc br outs_def ws_c_def ws_r_def
  show ?thesis by (intro exI [of _ a] exI [of _ outs] exI [of _ ws_c] exI [of _ ws_r] conjI impI)
qed

theorem hash_cpu_spec_witness:
  "\<exists>e ft.
     pc2_t \<lparr>PARALLEL_SECTORS = 2, TREE_ARITY = 8, NODE_SIZE = 32, sizeof_fr_t = 32,
             disk_io_batch_size = 2, num_host_batches = 1, num_host_empty_batches = 1\<rparr>
           \<lparr>GetNumNodes = 512, GetNumTreeRCFiles = 1, GetNumTreeRCArity = 8,
             GetNumTreeRDiscardRows = 2, GetNumLayers = 11\<rparr>
           False 512 512 1 = Some e \<and>
     2 \<le> (8 :: nat) \<and> (0 :: nat) < 32 \<and> 512 * 1 < (2 :: nat) ^ 64 \<and>
     tree_address_t (512 * 1 div 8 div 8) 8 32 0 = Some ft \<and>
     (2 * (512 * 1 div 8 div 8) + 1) * 32 < (2 :: nat) ^ 64 \<and>
     (512 :: nat) div 8 mod 8 = 0 \<and>
     inside_tree (512 * 1 div 8 div 8) 0 ft \<lparr>layer = 1 - 1, node = 3\<rparr> \<and>
     length [0 ..< 128] < (2 :: nat) ^ 64 \<and>
     (\<forall>s < 2. \<forall>i < 8.
        (3 * 8 + i) div (512 div 8) * (512 div 8) * 2 + s * (512 div 8)
          + (3 * 8 + i) mod (512 div 8) < length [0 ..< 128]) \<and>
     inside_tree (512 * 1 div 8 div 8) 0 ft \<lparr>layer = 2 - 1, node = 0\<rparr> \<and>
     (\<forall>i < 8. i < length (replicate 8 [1, 2 :: nat]) \<and>
               2 \<le> length (replicate 8 [1, 2 :: nat] ! i)) \<and>
     (2 * (512 div 1) + 1) * 32 < (2 :: nat) ^ 64 \<and>
     data_size ft \<le> 96 + data_size (tree_c_address e) \<and>
     data_size ft \<le> 256 + data_size (tree_r_address e) \<and>
     address ft \<lparr>layer = 0, node = 3\<rparr> = Some 96 \<and>
     address ft \<lparr>layer = 1, node = 0\<rparr> = Some 256 \<and>
     final_gpu_offset_c e = 18432 \<and>
     final_gpu_offset_r e = 2 ^ 64 - 256 \<and>
     hash_cpu_c \<lparr>PARALLEL_SECTORS = 2, TREE_ARITY = 8, NODE_SIZE = 32, sizeof_fr_t = 32,
                  disk_io_batch_size = 2, num_host_batches = 1, num_host_empty_batches = 1\<rparr>
       e sum_list [0 ..< 128] 0 \<lparr>idx = \<lparr>layer = 1, node = 3\<rparr>, is_leaf = True, inputs = []\<rparr>
       = Inr ([220, 732],
              [\<lparr>w_file = Tree_c 0 0, w_offset = 579, w_data = [220]\<rparr>,
               \<lparr>w_file = Tree_c 1 0, w_offset = 579, w_data = [732]\<rparr>]) \<and>
     579 * 32 + data_size ft = 96 + data_size (tree_c_address e) \<and>
     hash_cpu_r \<lparr>PARALLEL_SECTORS = 2, TREE_ARITY = 8, NODE_SIZE = 32, sizeof_fr_t = 32,
                  disk_io_batch_size = 2, num_host_batches = 1, num_host_empty_batches = 1\<rparr>
       e sum_list [] 0
       \<lparr>idx = \<lparr>layer = 2, node = 0\<rparr>, is_leaf = False,
         inputs = replicate 8 [1, 2 :: nat]\<rparr>
       = Inr ([8, 16],
              [\<lparr>w_file = Tree_r 0 0, w_offset = 0, w_data = [8]\<rparr>,
               \<lparr>w_file = Tree_r 1 0, w_offset = 0, w_data = [16]\<rparr>]) \<and>
     0 * 32 + data_size ft = 256 + data_size (tree_r_address e)"
proof -
  define C where "C = \<lparr>PARALLEL_SECTORS = 2, TREE_ARITY = 8, NODE_SIZE = 32, sizeof_fr_t = 32,
                  disk_io_batch_size = 2, num_host_batches = 1, num_host_empty_batches = 1\<rparr>"
  define ps where "ps = \<lparr>GetNumNodes = 512, GetNumTreeRCFiles = 1, GetNumTreeRCArity = 8,
                  GetNumTreeRDiscardRows = 2, GetNumLayers = 11\<rparr>"
  define ft where "ft = \<lparr>leaf_count = 8, arity = 8, node_size = 32, layer_offsets = [0, 256]\<rparr>"
  define w :: "nat work_item_t"
    where "w = \<lparr>idx = \<lparr>layer = 1, node = 3\<rparr>, is_leaf = True, inputs = []\<rparr>"
  define v :: "nat work_item_t"
    where "v = \<lparr>idx = \<lparr>layer = 2, node = 0\<rparr>, is_leaf = False, inputs = replicate 8 [1, 2]\<rparr>"
  define input :: "nat list" where "input = [0 ..< 128]"
  have "\<exists>e. pc2_t C ps False 512 512 1 = Some e \<and> data_size (tree_c_address e) = 18720 \<and>
             data_size (tree_r_address e) = 32 \<and>
             final_gpu_offset_c e = 18432 \<and> final_gpu_offset_r e = 18446744073709551360"
    by (simp add: C_def ps_def pc2_t_def tree_address_t_def layer_loop.simps size_t_def
          skip_layers_div offset_table_loop.simps data_size_def size_t_sub_def)
  then obtain e where e: "pc2_t C ps False 512 512 1 = Some e"
    and dc: "data_size (tree_c_address e) = 18720" and dr: "data_size (tree_r_address e) = 32"
    and oc: "final_gpu_offset_c e = 18432"
    and orr: "final_gpu_offset_r e = 18446744073709551360"
    by blast
  have A: "TREE_ARITY C = 8" and S: "PARALLEL_SECTORS C = 2" and sz: "sizeof_fr_t C = 32"
    and N: "NODE_SIZE C = 32"
    and P: "GetNumNodes ps div GetNumTreeRCFiles ps = 512"
    by (simp_all add: C_def ps_def)
  have ar: "2 \<le> TREE_ARITY C" by (simp add: A)
  have szp: "0 < sizeof_fr_t C" by (simp add: sz)
  have BK: "512 * 1 < (2 :: nat) ^ 64" by simp
  have t0: "tree_address_t (512 * 1 div 8 div 8) 8 32 0 = Some ft"
    by (simp add: ft_def tree_address_t_def layer_loop.simps size_t_def)
  then have t: "tree_address_t (512 * 1 div TREE_ARITY C div TREE_ARITY C) (TREE_ARITY C)
               (sizeof_fr_t C) 0 = Some ft"
    by (simp add: A sz)
  have small0: "(2 * (512 * 1 div 8 div 8) + 1) * 32 < (2 :: nat) ^ 64" by simp
  then have small: "(2 * (512 * 1 div TREE_ARITY C div TREE_ARITY C) + 1) * sizeof_fr_t C
                      < 2 ^ 64"
    by (simp add: A sz)
  have grp: "512 div TREE_ARITY C mod TREE_ARITY C = 0" by (simp add: A)
  have dft: "data_size ft = 288" by (simp add: ft_def data_size_def size_t_def)
  have lay_w: "0 < layer (idx w)" and lay_v: "0 < layer (idx v)"
    by (simp_all add: w_def v_def)
  have in_w0: "inside_tree (512 * 1 div 8 div 8) 0 ft \<lparr>layer = 1 - 1, node = 3\<rparr>"
    and in_v0: "inside_tree (512 * 1 div 8 div 8) 0 ft \<lparr>layer = 2 - 1, node = 0\<rparr>"
    by (simp_all add: inside_tree_def ft_def nodes_at_div)
  from in_w0 have in_w: "inside_tree (512 * 1 div TREE_ARITY C div TREE_ARITY C) 0 ft
                \<lparr>layer = layer (idx w) - 1, node = node (idx w)\<rparr>"
    by (simp add: A w_def)
  from in_v0 have in_v: "inside_tree (512 * 1 div TREE_ARITY C div TREE_ARITY C) 0 ft
                \<lparr>layer = layer (idx v) - 1, node = node (idx v)\<rparr>"
    by (simp add: A v_def)
  have inp: "length input < 2 ^ 64" by (simp add: input_def)
  have inp0: "length ([] :: nat list) < 2 ^ 64" by simp
  have bound: "(3 * 8 + i) div (512 div 8) * (512 div 8) * 2 + s * (512 div 8)
                 + (3 * 8 + i) mod (512 div 8) < length [0 ..< 128 :: nat]"
    if "s < 2" "i < 8" for s i :: nat
  proof -
    from that(2) have "3 * 8 + i < 64" by simp
    then have "(3 * 8 + i) div 64 = 0" "(3 * 8 + i) mod 64 = 3 * 8 + i" by simp_all
    moreover have "(512 :: nat) div 8 = 64" by simp
    ultimately show ?thesis using that by simp
  qed
  then have leaf_w: "is_leaf w \<longrightarrow>
                 0 < 512 div TREE_ARITY C \<and>
                 (\<forall>s < PARALLEL_SECTORS C. \<forall>i < TREE_ARITY C.
                    (node (idx w) * TREE_ARITY C + i) div (512 div TREE_ARITY C)
                        * (512 div TREE_ARITY C) * PARALLEL_SECTORS C
                      + s * (512 div TREE_ARITY C)
                      + (node (idx w) * TREE_ARITY C + i) mod (512 div TREE_ARITY C)
                    < length input)"
    by (simp add: A S w_def input_def)
  have inner_w: "\<not> is_leaf w \<longrightarrow>
                 (\<forall>i < TREE_ARITY C. i < length (inputs w) \<and>
                    PARALLEL_SECTORS C \<le> length (inputs w ! i))"
    by (simp add: w_def)
  have leaf_v: "is_leaf v \<longrightarrow>
                 0 < 512 div TREE_ARITY C \<and>
                 (\<forall>s < PARALLEL_SECTORS C. \<forall>i < TREE_ARITY C.
                    (node (idx v) * TREE_ARITY C + i) div (512 div TREE_ARITY C)
                        * (512 div TREE_ARITY C) * PARALLEL_SECTORS C
                      + s * (512 div TREE_ARITY C)
                      + (node (idx v) * TREE_ARITY C + i) mod (512 div TREE_ARITY C)
                    < length ([] :: nat list))"
    by (simp add: v_def)
  have inner_v0: "\<forall>i < 8. i < length (replicate 8 [1, 2 :: nat]) \<and>
               2 \<le> length (replicate 8 [1, 2 :: nat] ! i)"
    by simp
  then have inner_v: "\<not> is_leaf v \<longrightarrow>
                 (\<forall>i < TREE_ARITY C. i < length (inputs v) \<and>
                    PARALLEL_SECTORS C \<le> length (inputs v ! i))"
    by (simp add: v_def A S)
  have q: "(2 * (512 div 1) + 1) * 32 < (2 :: nat) ^ 64" by simp
  from hash_cpu_spec [OF e ar szp BK t small grp lay_w in_w inp leaf_w inner_w, of sum_list 0]
  obtain a outs ws_c
    where adr: "address ft \<lparr>layer = layer (idx w) - 1, node = node (idx w)\<rparr> = Some a"
      and outs: "outs = map (\<lambda>s. sum_list
                    (if is_leaf w
                     then map (\<lambda>i. input !
                            ((node (idx w) * TREE_ARITY C + i) div (512 div TREE_ARITY C)
                                * (512 div TREE_ARITY C) * PARALLEL_SECTORS C
                              + s * (512 div TREE_ARITY C)
                              + (node (idx w) * TREE_ARITY C + i) mod (512 div TREE_ARITY C)))
                          [0 ..< TREE_ARITY C]
                     else map (\<lambda>i. inputs w ! i ! s) [0 ..< TREE_ARITY C]))
                    [0 ..< PARALLEL_SECTORS C]"
      and ws: "ws_c = map (\<lambda>s. \<lparr>w_file = Tree_c s 0,
                             w_offset = size_t (a + final_gpu_offset_c e) div sizeof_fr_t C,
                             w_data = [outs ! s]\<rparr>) [0 ..< PARALLEL_SECTORS C]"
      and run: "hash_cpu_c C e sum_list input 0 w = Inr (outs, ws_c)"
      and byte: "NODE_SIZE C = sizeof_fr_t C \<and>
            (2 * (GetNumNodes ps div GetNumTreeRCFiles ps) + 1) * NODE_SIZE C < 2 ^ 64 \<and>
            data_size ft \<le> a + data_size (tree_c_address e) \<longrightarrow>
              (\<forall>x \<in> set ws_c.
                 byte_offset C x = size_t (a + final_gpu_offset_c e) \<and>
                 byte_offset C x + data_size ft = a + data_size (tree_c_address e))"
    by blast
  from adr have a: "a = 96" and adr_w: "address ft \<lparr>layer = 0, node = 3\<rparr> = Some 96"
    by (simp_all add: w_def address_def ft_def size_t_def split: if_splits)
  have o: "outs = [220, 732]"
    unfolding outs by (simp add: w_def A S input_def upt_conv_Cons)
  have wv: "ws_c = [\<lparr>w_file = Tree_c 0 0, w_offset = 579, w_data = [220]\<rparr>,
                    \<lparr>w_file = Tree_c 1 0, w_offset = 579, w_data = [732]\<rparr>]"
    unfolding ws by (simp add: o a oc sz S upt_conv_Cons size_t_def)
  have fit_c: "data_size ft \<le> 96 + data_size (tree_c_address e)" by (simp add: dft dc)
  then have "NODE_SIZE C = sizeof_fr_t C \<and>
            (2 * (GetNumNodes ps div GetNumTreeRCFiles ps) + 1) * NODE_SIZE C < 2 ^ 64 \<and>
            data_size ft \<le> a + data_size (tree_c_address e)"
    by (simp add: N sz P a)
  with byte have "\<forall>x \<in> set ws_c. byte_offset C x + data_size ft = a + data_size (tree_c_address e)"
    by blast
  then have bo_c: "579 * 32 + data_size ft = 96 + data_size (tree_c_address e)"
    by (simp add: wv byte_offset_def sz a)
  from run have run_c: "hash_cpu_c C e sum_list input 0 w
       = Inr ([220, 732],
              [\<lparr>w_file = Tree_c 0 0, w_offset = 579, w_data = [220]\<rparr>,
               \<lparr>w_file = Tree_c 1 0, w_offset = 579, w_data = [732]\<rparr>])"
    by (simp only: o wv)
  from hash_cpu_spec [OF e ar szp BK t small grp lay_v in_v inp0 leaf_v inner_v, of sum_list 0]
  obtain b outs' ws_r
    where adr': "address ft \<lparr>layer = layer (idx v) - 1, node = node (idx v)\<rparr> = Some b"
      and outs': "outs' = map (\<lambda>s. sum_list
                    (if is_leaf v
                     then map (\<lambda>i. ([] :: nat list) !
                            ((node (idx v) * TREE_ARITY C + i) div (512 div TREE_ARITY C)
                                * (512 div TREE_ARITY C) * PARALLEL_SECTORS C
                              + s * (512 div TREE_ARITY C)
                              + (node (idx v) * TREE_ARITY C + i) mod (512 div TREE_ARITY C)))
                          [0 ..< TREE_ARITY C]
                     else map (\<lambda>i. inputs v ! i ! s) [0 ..< TREE_ARITY C]))
                    [0 ..< PARALLEL_SECTORS C]"
      and ws': "ws_r = map (\<lambda>s. \<lparr>w_file = Tree_r s 0,
                             w_offset = size_t (b + final_gpu_offset_r e) div sizeof_fr_t C,
                             w_data = [outs' ! s]\<rparr>) [0 ..< PARALLEL_SECTORS C]"
      and run': "hash_cpu_r C e sum_list [] 0 v = Inr (outs', ws_r)"
      and byte': "NODE_SIZE C = sizeof_fr_t C \<and>
            (2 * (GetNumNodes ps div GetNumTreeRCFiles ps) + 1) * NODE_SIZE C < 2 ^ 64 \<and>
            data_size ft \<le> b + data_size (tree_r_address e) \<longrightarrow>
              (\<forall>x \<in> set ws_r.
                 byte_offset C x = size_t (b + final_gpu_offset_r e) \<and>
                 byte_offset C x + data_size ft = b + data_size (tree_r_address e))"
    by blast
  from adr' have b: "b = 256" and adr_v: "address ft \<lparr>layer = 1, node = 0\<rparr> = Some 256"
    by (simp_all add: v_def address_def ft_def size_t_def split: if_splits)
  have o': "outs' = [8, 16]"
    unfolding outs' by (simp add: v_def A S upt_conv_Cons)
  have wv': "ws_r = [\<lparr>w_file = Tree_r 0 0, w_offset = 0, w_data = [8]\<rparr>,
                     \<lparr>w_file = Tree_r 1 0, w_offset = 0, w_data = [16]\<rparr>]"
    unfolding ws' by (simp add: o' b orr sz S upt_conv_Cons size_t_def)
  have fit_r: "data_size ft \<le> 256 + data_size (tree_r_address e)" by (simp add: dft dr)
  then have "NODE_SIZE C = sizeof_fr_t C \<and>
            (2 * (GetNumNodes ps div GetNumTreeRCFiles ps) + 1) * NODE_SIZE C < 2 ^ 64 \<and>
            data_size ft \<le> b + data_size (tree_r_address e)"
    by (simp add: N sz P b)
  with byte' have "\<forall>x \<in> set ws_r. byte_offset C x + data_size ft = b + data_size (tree_r_address e)"
    by blast
  then have bo_r: "0 * 32 + data_size ft = 256 + data_size (tree_r_address e)"
    by (simp add: wv' byte_offset_def sz b)
  from run' have run_r: "hash_cpu_r C e sum_list [] 0 v
       = Inr ([8, 16],
              [\<lparr>w_file = Tree_r 0 0, w_offset = 0, w_data = [8]\<rparr>,
               \<lparr>w_file = Tree_r 1 0, w_offset = 0, w_data = [16]\<rparr>])"
    by (simp only: o' wv')
  have g1: "2 \<le> (8 :: nat)" and g2: "(0 :: nat) < 32" and g3: "(512 :: nat) div 8 mod 8 = 0"
    by simp_all
  from bound have g4: "\<forall>s < 2. \<forall>i < 8.
        (3 * 8 + i) div (512 div 8) * (512 div 8) * 2 + s * (512 div 8)
          + (3 * 8 + i) mod (512 div 8) < length [0 ..< 128 :: nat]"
    by blast
  from inp have g5: "length [0 ..< 128 :: nat] < 2 ^ 64" by (simp add: input_def)
  from orr have orr': "final_gpu_offset_r e = 2 ^ 64 - 256" by simp
  from e g1 g2 BK t0 small0 g3 in_w0 g5 g4 in_v0 inner_v0 q fit_c fit_r adr_w adr_v oc orr'
    run_c bo_c run_r bo_r
  have "\<exists>e ft.
     pc2_t C ps False 512 512 1 = Some e \<and>
     2 \<le> (8 :: nat) \<and> (0 :: nat) < 32 \<and> 512 * 1 < (2 :: nat) ^ 64 \<and>
     tree_address_t (512 * 1 div 8 div 8) 8 32 0 = Some ft \<and>
     (2 * (512 * 1 div 8 div 8) + 1) * 32 < (2 :: nat) ^ 64 \<and>
     (512 :: nat) div 8 mod 8 = 0 \<and>
     inside_tree (512 * 1 div 8 div 8) 0 ft \<lparr>layer = 1 - 1, node = 3\<rparr> \<and>
     length [0 ..< 128 :: nat] < (2 :: nat) ^ 64 \<and>
     (\<forall>s < 2. \<forall>i < 8.
        (3 * 8 + i) div (512 div 8) * (512 div 8) * 2 + s * (512 div 8)
          + (3 * 8 + i) mod (512 div 8) < length [0 ..< 128 :: nat]) \<and>
     inside_tree (512 * 1 div 8 div 8) 0 ft \<lparr>layer = 2 - 1, node = 0\<rparr> \<and>
     (\<forall>i < 8. i < length (replicate 8 [1, 2 :: nat]) \<and>
               2 \<le> length (replicate 8 [1, 2 :: nat] ! i)) \<and>
     (2 * (512 div 1) + 1) * 32 < (2 :: nat) ^ 64 \<and>
     data_size ft \<le> 96 + data_size (tree_c_address e) \<and>
     data_size ft \<le> 256 + data_size (tree_r_address e) \<and>
     address ft \<lparr>layer = 0, node = 3\<rparr> = Some 96 \<and>
     address ft \<lparr>layer = 1, node = 0\<rparr> = Some 256 \<and>
     final_gpu_offset_c e = 18432 \<and>
     final_gpu_offset_r e = 2 ^ 64 - 256 \<and>
     hash_cpu_c C e sum_list input 0 w
       = Inr ([220, 732],
              [\<lparr>w_file = Tree_c 0 0, w_offset = 579, w_data = [220]\<rparr>,
               \<lparr>w_file = Tree_c 1 0, w_offset = 579, w_data = [732]\<rparr>]) \<and>
     579 * 32 + data_size ft = 96 + data_size (tree_c_address e) \<and>
     hash_cpu_r C e sum_list [] 0 v
       = Inr ([8, 16],
              [\<lparr>w_file = Tree_r 0 0, w_offset = 0, w_data = [8]\<rparr>,
               \<lparr>w_file = Tree_r 1 0, w_offset = 0, w_data = [16]\<rparr>]) \<and>
     0 * 32 + data_size ft = 256 + data_size (tree_r_address e)"
    by (intro exI [of _ e] exI [of _ ft] conjI)
  then show ?thesis unfolding C_def ps_def w_def v_def input_def .
qed

end
